theory Spec2Isabelle
  imports Main "HOL-Library.Sublist" "HOL-Library.Char_ord" "HOL-Library.List_Lexorder"
begin

section \<open>JavaScript strings\<close>

text \<open>
  A JavaScript string is a sequence of UTF-16 code units. The model uses \<^typ>\<open>string\<close>:
  a \<^typ>\<open>char\<close> stands for one code unit of the range 0..255, which holds every
  character the program's own literals use.
\<close>

definition js_whitespace :: "char \<Rightarrow> bool" where
  \<comment> \<open>WhiteSpace and LineTerminator of ECMAScript below code unit 256:
      TAB, LF, VT, FF, CR, SP, NBSP.\<close>
  "js_whitespace c \<longleftrightarrow>
     c \<in> {CHR 0x09, CHR 0x0A, CHR 0x0B, CHR 0x0C, CHR 0x0D, CHR 0x20, CHR 0xA0}"

definition trim :: "string \<Rightarrow> string" where
  \<comment> \<open>\<^verbatim>\<open>String.prototype.trim\<close>\<close>
  "trim s = rev (dropWhile js_whitespace (rev (dropWhile js_whitespace s)))"

section \<open>JSON values\<close>

text \<open>
  The values \<^verbatim>\<open>JSON.parse\<close> returns. A number is held as the text \<^verbatim>\<open>ToString\<close> gives
  for it (\<open>0\<close> for both zeros), which is all the program ever asks of a number. An object
  is the list of its own properties in insertion order, with distinct keys.
\<close>

datatype json =
    JNull
  | JBool bool
  | JNum string
  | JStr string
  | JArr "json list"
  | JObj "(string \<times> json) list"

definition get_prop :: "json \<Rightarrow> string \<Rightarrow> json option" where
  \<comment> \<open>reading property \<open>k\<close> of a value that is not \<^verbatim>\<open>null\<close>; \<open>None\<close> is
      \<^verbatim>\<open>undefined\<close>. None of the names the program reads is a property of a string,
      number, boolean or array, or inherited by an object.\<close>
  "get_prop v k = (case v of JObj kvs \<Rightarrow> map_of kvs k | _ \<Rightarrow> None)"

fun truthy :: "json \<Rightarrow> bool" where
  "truthy JNull = False"
| "truthy (JBool b) = b"
| "truthy (JNum t) = (t \<noteq> ''0'' \<and> t \<noteq> ''NaN'')"
| "truthy (JStr s) = (s \<noteq> [])"
| "truthy (JArr vs) = True"
| "truthy (JObj kvs) = True"

fun join_with :: "string \<Rightarrow> string list \<Rightarrow> string" where
  \<comment> \<open>\<^verbatim>\<open>Array.prototype.join\<close> on strings\<close>
  "join_with sep [] = []"
| "join_with sep [x] = x"
| "join_with sep (x # y # ys) = x @ sep @ join_with sep (y # ys)"

definition hex_digit :: "nat \<Rightarrow> char" where
  "hex_digit n = ''0123456789abcdef'' ! (n mod 16)"

definition quote_char :: "char \<Rightarrow> string" where
  \<comment> \<open>one code unit inside a JSON string literal (QuoteJSONString)\<close>
  "quote_char c =
     (if c = CHR 0x08 then [CHR 0x5C, CHR ''b'']
      else if c = CHR 0x09 then [CHR 0x5C, CHR ''t'']
      else if c = CHR 0x0A then [CHR 0x5C, CHR ''n'']
      else if c = CHR 0x0C then [CHR 0x5C, CHR ''f'']
      else if c = CHR 0x0D then [CHR 0x5C, CHR ''r'']
      else if c = CHR 0x22 then [CHR 0x5C, CHR 0x22]
      else if c = CHR 0x5C then [CHR 0x5C, CHR 0x5C]
      else if (of_char c :: nat) < 0x20 then
        [CHR 0x5C, CHR ''u'', CHR ''0'', CHR ''0'',
         hex_digit (of_char c div 16), hex_digit (of_char c)]
      else [c])"

definition quote :: "string \<Rightarrow> string" where
  "quote s = [CHR 0x22] @ concat (map quote_char s) @ [CHR 0x22]"

fun stringify :: "json \<Rightarrow> string" where
  \<comment> \<open>\<^verbatim>\<open>JSON.stringify\<close> with one argument\<close>
  "stringify JNull = ''null''"
| "stringify (JBool b) = (if b then ''true'' else ''false'')"
| "stringify (JNum t) = (if t \<in> {''Infinity'', ''-Infinity'', ''NaN''} then ''null'' else t)"
| "stringify (JStr s) = quote s"
| "stringify (JArr vs) = ''['' @ join_with '','' (map stringify vs) @ '']''"
| "stringify (JObj kvs) =
     ''{'' @ join_with '','' (map (\<lambda>(k, v). quote k @ '':'' @ stringify v) kvs) @ ''}''"

fun to_string :: "json \<Rightarrow> string option" and element_string :: "json \<Rightarrow> string option" where
  \<comment> \<open>\<^verbatim>\<open>ToString\<close> of a value, and of an array element inside \<^verbatim>\<open>join\<close> (where
      \<^verbatim>\<open>null\<close> gives the empty string). \<open>None\<close> is the TypeError of an object whose own
      \<^verbatim>\<open>toString\<close> property hides the inherited method.\<close>
  "to_string JNull = Some ''null''"
| "to_string (JBool b) = Some (if b then ''true'' else ''false'')"
| "to_string (JNum t) = Some t"
| "to_string (JStr s) = Some s"
| "to_string (JArr vs) = map_option (join_with '','') (those (map element_string vs))"
| "to_string (JObj kvs) =
     (if ''toString'' \<in> fst ` set kvs then None else Some ''[object Object]'')"
| "element_string v = (if v = JNull then Some [] else to_string v)"

definition join_values :: "string \<Rightarrow> json list \<Rightarrow> string option" where
  \<comment> \<open>\<^verbatim>\<open>Array.prototype.join\<close> on values\<close>
  "join_values sep vs = map_option (join_with sep) (those (map element_string vs))"

section \<open>stripThinkTags (index.ts)\<close>

definition think_open :: string where
  "think_open = ''<think>''"

definition think_close :: string where
  "think_close = ''</think>''"

fun after_first :: "string \<Rightarrow> string \<Rightarrow> string option" where
  \<comment> \<open>the text behind the first occurrence of the pattern, if it occurs\<close>
  "after_first p [] = (if p = [] then Some [] else None)"
| "after_first p (c # cs) =
     (if prefix p (c # cs) then Some (drop (length p) (c # cs)) else after_first p cs)"

lemma after_first_length: "after_first p s = Some r \<Longrightarrow> length r \<le> length s"
  by (induction s) (auto split: if_splits)

function replace_think :: "string \<Rightarrow> string" where
  \<comment> \<open>\<^verbatim>\<open>text.replace(/<think>[\s\S]*?<\/think>/g, '')\<close>: at each position, left to
      right, a match starts with the opening tag and ends with the first closing tag behind
      it; the match is dropped and the scan goes on behind it.\<close>
  "replace_think [] = []"
| "replace_think (c # cs) =
     (if prefix think_open (c # cs) then
        (case after_first think_close (drop (length think_open) (c # cs)) of
           Some rest \<Rightarrow> replace_think rest
         | None \<Rightarrow> c # replace_think cs)
      else c # replace_think cs)"
  by pat_completeness auto
termination
proof (relation "measure length")
  show "wf (measure length)" by simp
next
  fix c cs rest
  assume "prefix think_open (c # cs)"
    and r: "after_first think_close (drop (length think_open) (c # cs)) = Some rest"
  have "length rest \<le> length (drop (length think_open) (c # cs))"
    using after_first_length [OF r] .
  also have "\<dots> < length (c # cs)"
    by (simp add: think_open_def)
  finally show "(rest, c # cs) \<in> measure length" by simp
qed simp_all

definition stripThinkTags :: "string \<Rightarrow> string" where
  "stripThinkTags text = trim (replace_think text)"

subsection \<open>The replacement removes matched spans and nothing else\<close>

lemma after_first_here: "after_first p (p @ z) = Some z"
proof (cases p)
  case Nil
  then show ?thesis by (cases z) simp_all
next
  case (Cons x xs)
  then show ?thesis by simp
qed

lemma after_first_decomp:
  "after_first p s = Some r \<Longrightarrow> \<exists>b. s = b @ p @ r"
proof (induction s)
  case Nil
  then show ?case by (auto split: if_splits)
next
  case (Cons c cs)
  show ?case
  proof (cases "prefix p (c # cs)")
    case True
    then obtain z where z: "c # cs = p @ z" by (auto simp: prefix_def)
    with Cons.prems have "r = z" by (simp add: after_first_here)
    with z show ?thesis by (intro exI [of _ "[]"]) simp
  next
    case False
    with Cons.prems have "after_first p cs = Some r" by simp
    then obtain b where "cs = b @ p @ r" using Cons.IH by blast
    then show ?thesis by (intro exI [of _ "c # b"]) simp
  qed
qed

lemma prefix_inside:
  assumes "prefix p (a @ p @ r)"
  shows "\<exists>v. a @ p = p @ v \<and> length v = length a"
proof -
  from assms obtain z where z: "a @ p @ r = p @ z" by (auto simp: prefix_def)
  then have "take (length p) (a @ p) = p"
    by (metis append_eq_conv_conj append.assoc take_all_iff take_append length_append le_add2)
  then have "a @ p = p @ drop (length p) (a @ p)"
    by (metis append_take_drop_id)
  moreover have "length (drop (length p) (a @ p)) = length a" by simp
  ultimately show ?thesis by blast
qed

definition ends_first :: "string \<Rightarrow> string \<Rightarrow> bool" where
  \<comment> \<open>the pattern occurs in \<open>a @ p\<close> at the end only\<close>
  "ends_first p a \<longleftrightarrow> (\<forall>u v. a @ p = u @ p @ v \<longrightarrow> v = [])"

lemma ends_first_Cons: "ends_first p (x # a) \<Longrightarrow> ends_first p a"
  unfolding ends_first_def
proof (intro allI impI)
  fix u v
  assume h: "\<forall>u v. (x # a) @ p = u @ p @ v \<longrightarrow> v = []" and e: "a @ p = u @ p @ v"
  from e have "(x # a) @ p = (x # u) @ p @ v" by simp
  with h show "v = []" by blast
qed

lemma ends_first_not_prefix:
  assumes "ends_first p (x # a)"
  shows "\<not> prefix p ((x # a) @ p @ r)"
proof
  assume "prefix p ((x # a) @ p @ r)"
  then obtain v where v: "(x # a) @ p = p @ v" "length v = length (x # a)"
    using prefix_inside by blast
  then have "(x # a) @ p = [] @ p @ v" by simp
  with assms have "v = []" unfolding ends_first_def by blast
  with v(2) show False by simp
qed

lemma after_first_ends_first:
  "ends_first p b \<Longrightarrow> after_first p (b @ p @ c) = Some c"
proof (induction b)
  case Nil
  show ?case by (simp add: after_first_here)
next
  case (Cons x b)
  have "\<not> prefix p ((x # b) @ p @ c)" using Cons.prems by (rule ends_first_not_prefix)
  moreover have "after_first p (b @ p @ c) = Some c"
    using Cons.IH Cons.prems ends_first_Cons by blast
  ultimately show ?case by simp
qed

lemma replace_think_span:
  "ends_first think_open a \<Longrightarrow> ends_first think_close b \<Longrightarrow>
   replace_think (a @ think_open @ b @ think_close @ c) = a @ replace_think c"
proof (induction a)
  case Nil
  have o: "think_open @ b @ think_close @ c = CHR ''<'' # (''think>'' @ b @ think_close @ c)"
    by (simp add: think_open_def)
  have p: "prefix think_open (CHR ''<'' # (''think>'' @ b @ think_close @ c))"
    unfolding o [symmetric] by simp
  have d: "drop (length think_open) (CHR ''<'' # (''think>'' @ b @ think_close @ c)) = b @ think_close @ c"
    unfolding o [symmetric] by simp
  show ?case
    using after_first_ends_first [OF Nil.prems(2), of c]
    apply (simp only: append_Nil o)
    apply (subst replace_think.simps)
    apply (simp only: p d if_True option.case)
    done
next
  case (Cons x a)
  have "\<not> prefix think_open ((x # a) @ think_open @ b @ think_close @ c)"
    using Cons.prems(1) by (rule ends_first_not_prefix)
  moreover have "replace_think (a @ think_open @ b @ think_close @ c) = a @ replace_think c"
    using Cons.IH Cons.prems ends_first_Cons by blast
  ultimately show ?case by simp
qed

lemma replace_think_no_pair:
  "\<not> (\<exists>a b c. s = a @ think_open @ b @ think_close @ c) \<Longrightarrow> replace_think s = s"
proof (induction s rule: replace_think.induct)
  case 1
  show ?case by simp
next
  case (2 c cs)
  have np: "\<not> (\<exists>a b d. cs = a @ think_open @ b @ think_close @ d)"
  proof
    assume "\<exists>a b d. cs = a @ think_open @ b @ think_close @ d"
    then obtain a b d where "cs = a @ think_open @ b @ think_close @ d" by blast
    then have "c # cs = (c # a) @ think_open @ b @ think_close @ d" by simp
    with "2.prems" show False by blast
  qed
  have nm: "\<not> (prefix think_open (c # cs) \<and>
      (\<exists>rest. after_first think_close (drop (length think_open) (c # cs)) = Some rest))"
  proof
    assume h: "prefix think_open (c # cs) \<and>
      (\<exists>rest. after_first think_close (drop (length think_open) (c # cs)) = Some rest)"
    then obtain z where z: "c # cs = think_open @ z" by (auto simp: prefix_def)
    from h obtain rest where "after_first think_close (drop (length think_open) (c # cs)) = Some rest"
      by blast
    with z have "after_first think_close z = Some rest" by simp
    then obtain b where "z = b @ think_close @ rest" using after_first_decomp by blast
    with z have "c # cs = [] @ think_open @ b @ think_close @ rest" by simp
    with "2.prems" show False by blast
  qed
  show ?case
  proof (cases "prefix think_open (c # cs)")
    case True
    with nm have n: "after_first think_close (drop (length think_open) (c # cs)) = None"
      by (cases "after_first think_close (drop (length think_open) (c # cs))") auto
    have "replace_think cs = cs" using "2.IH"(1) [OF True n np] .
    with True n show ?thesis by simp
  next
    case False
    have "replace_think cs = cs" using "2.IH"(3) [OF False np] .
    with False show ?thesis by simp
  qed
qed

lemma sublist_butlast_ends_first:
  assumes "\<not> sublist p (butlast (a @ p))"
  shows "ends_first p a"
  unfolding ends_first_def
proof (intro allI impI)
  fix u v
  assume e: "a @ p = u @ p @ v"
  show "v = []"
  proof (rule ccontr)
    assume "v \<noteq> []"
    then have "butlast (u @ p @ v) = u @ p @ butlast v"
      by (simp add: butlast_append)
    with e have "butlast (a @ p) = u @ p @ butlast v" by simp
    then have "sublist p (butlast (a @ p))" unfolding sublist_def by blast
    with assms show False by blast
  qed
qed

text \<open>
  Claim C6. The stripper maps \<open><think>scratch</think>Hello\<close> to \<open>Hello\<close>. A text with
  no opening tag followed, somewhere behind it, by a closing tag comes back unchanged but for
  the trimming of its surrounding whitespace. A paired span is removed in its entirety:
  where the opening tag at the end of \<open>a @ think_open\<close> is the first one of the text and
  the closing tag at the end of \<open>b @ think_close\<close> is the first one behind it, the
  result keeps \<open>a\<close>, drops the tags and everything between them, and goes on in the
  same way with the text \<open>c\<close> behind the span.
\<close>

theorem stripThinkTags_spec:
  "stripThinkTags ''<think>scratch</think>Hello'' = ''Hello'' \<and>
   ((\<nexists>a b c. s = a @ think_open @ b @ think_close @ c) \<longrightarrow> stripThinkTags s = trim s) \<and>
   (\<not> sublist think_open (butlast (a @ think_open)) \<and>
    \<not> sublist think_close (butlast (b @ think_close)) \<longrightarrow>
      stripThinkTags (a @ think_open @ b @ think_close @ c) = trim (a @ replace_think c))"
proof (intro conjI impI)
  show "stripThinkTags ''<think>scratch</think>Hello'' = ''Hello''"
    by code_simp
next
  assume "\<nexists>a b c. s = a @ think_open @ b @ think_close @ c"
  then show "stripThinkTags s = trim s"
    by (simp add: stripThinkTags_def replace_think_no_pair)
next
  assume h: "\<not> sublist think_open (butlast (a @ think_open)) \<and>
    \<not> sublist think_close (butlast (b @ think_close))"
  then have "ends_first think_open a" and "ends_first think_close b"
    by (simp_all add: sublist_butlast_ends_first)
  then show "stripThinkTags (a @ think_open @ b @ think_close @ c) = trim (a @ replace_think c)"
    by (simp add: stripThinkTags_def replace_think_span)
qed

theorem stripThinkTags_spec_witness:
  "(\<nexists>a b c. ''  Hello '' = a @ think_open @ b @ think_close @ c) \<and>
   stripThinkTags ''  Hello '' = ''Hello'' \<and>
   \<not> sublist think_open (butlast (''x '' @ think_open)) \<and>
   \<not> sublist think_close (butlast (''<think>y'' @ think_close)) \<and>
   stripThinkTags (''x '' @ think_open @ ''<think>y'' @ think_close @ '' z</think> '') = ''x  z</think>''"
proof -
  have n: "\<nexists>a b c. ''  Hello '' = a @ think_open @ b @ think_close @ c"
  proof
    assume "\<exists>a b c. ''  Hello '' = a @ think_open @ b @ think_close @ c"
    then obtain a b c where "''  Hello '' = a @ think_open @ b @ think_close @ c" by blast
    then have "set ''  Hello '' = set (a @ think_open @ b @ think_close @ c)" by simp
    then have "CHR ''<'' \<in> set ''  Hello ''" by (simp add: think_open_def)
    then show False by simp
  qed
  have o: "\<not> sublist think_open (butlast (''x '' @ think_open))" by code_simp
  have c: "\<not> sublist think_close (butlast (''<think>y'' @ think_close))" by code_simp
  have t1: "trim ''  Hello '' = ''Hello''" by code_simp
  have t2: "trim (''x '' @ replace_think '' z</think> '') = ''x  z</think>''" by code_simp
  from stripThinkTags_spec [of "''  Hello ''" "''x ''" "''<think>y''" "'' z</think> ''"] n o c t1 t2
  show ?thesis by simp
qed

section \<open>History store (memory.ts)\<close>

definition newline :: char where
  \<comment> \<open>the line feed\<close>
  "newline = CHR 0x0A"

function split_nl :: "string \<Rightarrow> string list" where
  \<comment> \<open>\<^verbatim>\<open>split('\n')\<close>\<close>
  "split_nl s =
     (case dropWhile (\<lambda>c. c \<noteq> newline) s of
        [] \<Rightarrow> [s]
      | _ # rest \<Rightarrow> takeWhile (\<lambda>c. c \<noteq> newline) s # split_nl rest)"
  by pat_completeness auto
termination
proof (relation "measure length")
  show "wf (measure length)" by simp
next
  fix s :: string and x rest
  assume "dropWhile (\<lambda>c. c \<noteq> newline) s = x # rest"
  then have "length (x # rest) \<le> length s"
    by (metis length_dropWhile_le)
  then show "(rest, s) \<in> measure length" by simp
qed

definition MAX_HISTORY_MESSAGES :: nat where
  "MAX_HISTORY_MESSAGES = 50"

definition slice_last :: "nat \<Rightarrow> 'a list \<Rightarrow> 'a list" where
  \<comment> \<open>\<^verbatim>\<open>xs.slice(-n)\<close> for a positive \<open>n\<close>\<close>
  "slice_last n xs = drop (length xs - n) xs"

text \<open>
  \<^verbatim>\<open>loadHistory\<close> reads the history file (\<open>None\<close>: the file does not exist). The
  loop over the lines pushes what \<^verbatim>\<open>JSON.parse\<close> returns; \<open>parse\<close> stands for
  \<^verbatim>\<open>JSON.parse\<close>, with \<open>None\<close> where it throws.
\<close>

fun load_lines :: "(string \<Rightarrow> json option) \<Rightarrow> string list \<Rightarrow> json list \<Rightarrow> json list" where
  "load_lines parse [] messages = messages"
| "load_lines parse (line # lines) messages =
     (if trim line = [] then load_lines parse lines messages
      else (case parse line of
              Some v \<Rightarrow> load_lines parse lines (messages @ [v])
            | None \<Rightarrow> load_lines parse lines messages))"

definition loadHistory :: "(string \<Rightarrow> json option) \<Rightarrow> string option \<Rightarrow> json list" where
  "loadHistory parse file =
     (case file of
        None \<Rightarrow> []
      | Some text \<Rightarrow>
          slice_last MAX_HISTORY_MESSAGES (load_lines parse (split_nl (trim text)) []))"

text \<open>
  What the claims call the records of the log: the lines of the text, the whitespace around
  the whole text aside. A record is well formed where it is not blank and parses. A log
  written record by record has every record followed by a line feed.
\<close>

definition log_lines :: "string \<Rightarrow> string list" where
  "log_lines text = split_nl (trim text)"

definition record_of :: "(string \<Rightarrow> json option) \<Rightarrow> string \<Rightarrow> json option" where
  "record_of parse line = (if trim line = [] then None else parse line)"

definition persisted_log :: "string list \<Rightarrow> string" where
  "persisted_log ls = concat (map (\<lambda>l. l @ [newline]) ls)"

definition parsed_records :: "(string \<Rightarrow> json option) \<Rightarrow> string \<Rightarrow> json list" where
  \<comment> \<open>the well-formed records of a log, parsed, in their order\<close>
  "parsed_records parse text = List.map_filter (record_of parse) (log_lines text)"

declare split_nl.simps [simp del]

subsection \<open>Loading returns the well-formed records, at most the last 50\<close>

lemma load_lines_map_filter:
  "load_lines parse ls acc = acc @ List.map_filter (record_of parse) ls"
  by (induction ls arbitrary: acc)
     (auto simp: record_of_def List.map_filter_simps split: option.splits)

lemma split_nl_single: "newline \<notin> set l \<Longrightarrow> split_nl l = [l]"
proof -
  assume "newline \<notin> set l"
  then have d: "dropWhile (\<lambda>c. c \<noteq> newline) l = []" by (auto simp: dropWhile_eq_Nil_conv)
  show ?thesis by (subst split_nl.simps) (simp only: d list.case)
qed

lemma split_nl_line: "newline \<notin> set l \<Longrightarrow> split_nl (l @ newline # rest) = l # split_nl rest"
proof -
  assume n: "newline \<notin> set l"
  then have d: "dropWhile (\<lambda>c. c \<noteq> newline) (l @ newline # rest) = newline # rest"
    by (auto simp: dropWhile_append)
  from n have t: "takeWhile (\<lambda>c. c \<noteq> newline) (l @ newline # rest) = l"
    by (auto simp: takeWhile_tail)
  show ?thesis by (subst split_nl.simps) (simp only: d t list.case)
qed

lemma split_nl_join:
  "ls \<noteq> [] \<Longrightarrow> \<forall>l\<in>set ls. newline \<notin> set l \<Longrightarrow> split_nl (join_with [newline] ls) = ls"
proof (induction "[newline]" ls rule: join_with.induct)
  case 1
  then show ?case by simp
next
  case (2 x)
  then show ?case by (simp add: split_nl_single)
next
  case (3 x y ys)
  then show ?case by (simp add: split_nl_line)
qed

lemma persisted_log_join: "ls \<noteq> [] \<Longrightarrow> persisted_log ls = join_with [newline] ls @ [newline]"
proof (induction "[newline]" ls rule: join_with.induct)
  case 1
  then show ?case by simp
next
  case (2 x)
  then show ?case by (simp add: persisted_log_def)
next
  case (3 x y ys)
  then show ?case by (simp add: persisted_log_def)
qed

lemma trim_inner:
  assumes "s \<noteq> []" "\<not> js_whitespace (hd s)" "\<not> js_whitespace (last s)"
  shows "trim (s @ [newline]) = s"
proof -
  from assms obtain c cs where s: "s = c # cs" by (cases s) auto
  with assms have "dropWhile js_whitespace (s @ [newline]) = s @ [newline]" by simp
  moreover have "js_whitespace newline" by (simp add: js_whitespace_def newline_def)
  moreover from assms have "dropWhile js_whitespace (rev s) = rev s"
    by (cases s rule: rev_cases) auto
  ultimately show ?thesis by (simp add: trim_def)
qed

lemma hd_join: "ls \<noteq> [] \<Longrightarrow> hd ls \<noteq> [] \<Longrightarrow> hd (join_with sep ls) = hd (hd ls)"
  by (induction sep ls rule: join_with.induct) auto

lemma join_nonempty_last: "ls \<noteq> [] \<Longrightarrow> last ls \<noteq> [] \<Longrightarrow> join_with sep ls \<noteq> []"
  by (induction sep ls rule: join_with.induct) auto

lemma last_join: "ls \<noteq> [] \<Longrightarrow> last ls \<noteq> [] \<Longrightarrow> last (join_with sep ls) = last (last ls)"
proof (induction sep ls rule: join_with.induct)
  case (3 sep x y ys)
  then have "join_with sep (y # ys) \<noteq> []" by (intro join_nonempty_last) auto
  with 3 show ?case by simp
qed auto

lemma join_nonempty: "ls \<noteq> [] \<Longrightarrow> hd ls \<noteq> [] \<Longrightarrow> join_with sep ls \<noteq> []"
  by (induction sep ls rule: join_with.induct) auto

lemma log_lines_persisted:
  assumes "ls \<noteq> []" "\<forall>l\<in>set ls. newline \<notin> set l"
    and "hd ls \<noteq> []" "\<not> js_whitespace (hd (hd ls))"
    and "last ls \<noteq> []" "\<not> js_whitespace (last (last ls))"
  shows "log_lines (persisted_log ls) = ls"
proof -
  have "trim (join_with [newline] ls @ [newline]) = join_with [newline] ls"
    using assms by (intro trim_inner) (simp_all add: hd_join last_join join_nonempty)
  then show ?thesis
    using assms by (simp add: log_lines_def persisted_log_join split_nl_join)
qed

lemma slice_last_length: "length (slice_last n xs) = min n (length xs)"
  by (simp add: slice_last_def)


lemma map_filter_all:
  "\<forall>x\<in>set xs. f x \<noteq> None \<Longrightarrow> List.map_filter f xs = map (the \<circ> f) xs"
  by (induction xs) (auto simp: List.map_filter_simps)

lemma map_filter_append:
  "List.map_filter f (xs @ ys) = List.map_filter f xs @ List.map_filter f ys"
  by (simp add: List.map_filter_def)

lemma map_filter_one_bad:
  assumes "f bad = None" and "\<forall>x\<in>set (xs @ ys). f x \<noteq> None"
  shows "List.map_filter f (xs @ [bad] @ ys) = map (the \<circ> f) (xs @ ys)"
proof -
  have "List.map_filter f (xs @ [bad] @ ys) = List.map_filter f xs @ List.map_filter f ys"
    using assms(1) by (simp add: map_filter_append List.map_filter_simps)
  also have "\<dots> = List.map_filter f (xs @ ys)" by (simp add: map_filter_append)
  also have "\<dots> = map (the \<circ> f) (xs @ ys)" using assms(2) by (rule map_filter_all)
  finally show ?thesis .
qed

lemma loadHistory_records:
  "loadHistory parse (Some text) = slice_last 50 (parsed_records parse text)"
  by (simp add: loadHistory_def parsed_records_def log_lines_def MAX_HISTORY_MESSAGES_def
      load_lines_map_filter)

text \<open>
  Claim C2. \<^verbatim>\<open>load()\<close> returns the well-formed records of the log in their order, cut to
  the last 50: never more than 50, and exactly the last 50 where more than 50 records are well
  formed. With one malformed line among well-formed ones, every well-formed line is parsed,
  those behind the malformed one too, so that \<open>N\<close> well-formed lines give \<open>N\<close> messages
  (the last 50 of them where \<open>N\<close> exceeds 50). The last part ties the records to the file:
  the lines of a log written record by record are its records.
\<close>

theorem loadHistory_spec:
  "loadHistory parse None = [] \<and>
   loadHistory parse (Some text) = slice_last 50 (parsed_records parse text) \<and>
   length (loadHistory parse (Some text)) \<le> 50 \<and>
   (50 < length (parsed_records parse text) \<longrightarrow>
      loadHistory parse (Some text) =
        drop (length (parsed_records parse text) - 50) (parsed_records parse text) \<and>
      length (loadHistory parse (Some text)) = 50) \<and>
   (log_lines text = good1 @ [bad] @ good2 \<and> record_of parse bad = None \<and>
    (\<forall>l\<in>set (good1 @ good2). record_of parse l \<noteq> None) \<longrightarrow>
      loadHistory parse (Some text) = slice_last 50 (map (the \<circ> parse) (good1 @ good2))) \<and>
   (log_lines text = good1 @ [bad] @ good2 \<and> record_of parse bad = None \<and>
    (\<forall>l\<in>set (good1 @ good2). record_of parse l \<noteq> None) \<and>
    length good1 + length good2 \<le> 50 \<longrightarrow>
      loadHistory parse (Some text) = map (the \<circ> parse) (good1 @ good2) \<and>
      length (loadHistory parse (Some text)) = length good1 + length good2) \<and>
   (ls \<noteq> [] \<and> (\<forall>l\<in>set ls. newline \<notin> set l) \<and>
    hd ls \<noteq> [] \<and> \<not> js_whitespace (hd (hd ls)) \<and>
    last ls \<noteq> [] \<and> \<not> js_whitespace (last (last ls)) \<longrightarrow>
      log_lines (persisted_log ls) = ls)"
proof -
  let ?rs = "parsed_records parse text"
  have none: "loadHistory parse None = []" by (simp add: loadHistory_def)
  have eq: "loadHistory parse (Some text) = slice_last 50 ?rs" by (rule loadHistory_records)
  have le: "length (loadHistory parse (Some text)) \<le> 50"
    by (simp add: eq slice_last_length)
  have more: "50 < length ?rs \<longrightarrow>
      loadHistory parse (Some text) = drop (length ?rs - 50) ?rs \<and>
      length (loadHistory parse (Some text)) = 50"
    by (simp add: eq slice_last_def)
  have bad: "?rs = map (the \<circ> parse) (good1 @ good2)"
    if h: "log_lines text = good1 @ [bad] @ good2" "record_of parse bad = None"
      "\<forall>l\<in>set (good1 @ good2). record_of parse l \<noteq> None"
  proof -
    have "?rs = map (the \<circ> record_of parse) (good1 @ good2)"
      unfolding parsed_records_def h(1) using h(2,3) by (rule map_filter_one_bad)
    also have "\<dots> = map (the \<circ> parse) (good1 @ good2)"
      using h(3) by (intro map_cong) (auto simp: record_of_def split: if_splits)
    finally show ?thesis .
  qed
  have bad50: "log_lines text = good1 @ [bad] @ good2 \<and> record_of parse bad = None \<and>
    (\<forall>l\<in>set (good1 @ good2). record_of parse l \<noteq> None) \<longrightarrow>
      loadHistory parse (Some text) = slice_last 50 (map (the \<circ> parse) (good1 @ good2))"
    using bad eq by simp
  have badN: "log_lines text = good1 @ [bad] @ good2 \<and> record_of parse bad = None \<and>
    (\<forall>l\<in>set (good1 @ good2). record_of parse l \<noteq> None) \<and>
    length good1 + length good2 \<le> 50 \<longrightarrow>
      loadHistory parse (Some text) = map (the \<circ> parse) (good1 @ good2) \<and>
      length (loadHistory parse (Some text)) = length good1 + length good2"
    using bad eq by (simp add: slice_last_def)
  have lines: "ls \<noteq> [] \<and> (\<forall>l\<in>set ls. newline \<notin> set l) \<and>
    hd ls \<noteq> [] \<and> \<not> js_whitespace (hd (hd ls)) \<and>
    last ls \<noteq> [] \<and> \<not> js_whitespace (last (last ls)) \<longrightarrow>
      log_lines (persisted_log ls) = ls"
    using log_lines_persisted by blast
  from none eq le more bad50 badN lines show ?thesis by blast
qed

theorem loadHistory_spec_witness:
  "50 < length (parsed_records (\<lambda>l. if l = ''bad'' then None else Some (JStr l))
                  (persisted_log (replicate 51 ''x''))) \<and>
   length (loadHistory (\<lambda>l. if l = ''bad'' then None else Some (JStr l))
             (Some (persisted_log (replicate 51 ''x'')))) = 50 \<and>
   log_lines (persisted_log [''a'', ''bad'', ''b'']) = [''a''] @ [''bad''] @ [''b''] \<and>
   record_of (\<lambda>l. if l = ''bad'' then None else Some (JStr l)) ''bad'' = None \<and>
   list_all (\<lambda>l. record_of (\<lambda>l. if l = ''bad'' then None else Some (JStr l)) l \<noteq> None)
     ([''a''] @ [''b'']) \<and>
   loadHistory (\<lambda>l. if l = ''bad'' then None else Some (JStr l))
     (Some (persisted_log [''a'', ''bad'', ''b''])) = [JStr ''a'', JStr ''b'']"
proof -
  let ?p = "\<lambda>l. if l = ''bad'' then None else Some (JStr l)"
  have big: "50 < length (parsed_records ?p (persisted_log (replicate 51 ''x'')))"
    by code_simp
  have l: "[''a'', ''bad'', ''b''] \<noteq> [] \<and> (\<forall>l\<in>set [''a'', ''bad'', ''b'']. newline \<notin> set l) \<and>
    hd [''a'', ''bad'', ''b''] \<noteq> [] \<and> \<not> js_whitespace (hd (hd [''a'', ''bad'', ''b''])) \<and>
    last [''a'', ''bad'', ''b''] \<noteq> [] \<and> \<not> js_whitespace (last (last [''a'', ''bad'', ''b'']))"
    by (simp add: newline_def js_whitespace_def)
  have ll: "log_lines (persisted_log [''a'', ''bad'', ''b'']) = [''a''] @ [''bad''] @ [''b'']"
    using loadHistory_spec [of ?p "''''" "[]" "''''" "[]" "[''a'', ''bad'', ''b'']"] l by simp
  have b: "record_of ?p ''bad'' = None" by (simp add: record_of_def)
  have g: "\<forall>l\<in>set ([''a''] @ [''b'']). record_of ?p l \<noteq> None"
    by (simp add: record_of_def trim_def js_whitespace_def)
  have n: "length [''a''] + length [''b''] \<le> 50" by simp
  have r1: "length (loadHistory ?p (Some (persisted_log (replicate 51 ''x'')))) = 50"
    using loadHistory_spec [of ?p "persisted_log (replicate 51 ''x'')"] big by blast
  have r2: "loadHistory ?p (Some (persisted_log [''a'', ''bad'', ''b''])) = map (the \<circ> ?p) ([''a''] @ [''b''])"
    using loadHistory_spec [of ?p "persisted_log [''a'', ''bad'', ''b'']" "[''a'']" "''bad''" "[''b'']"]
      ll b g n by blast
  from big r1 ll b g r2 show ?thesis by (simp add: list_all_iff)
qed

section \<open>The process and its surroundings\<close>

text \<open>
  The state the program works on. The history file is \<^verbatim>\<open>conversation-history.jsonl\<close>
  in the group workspace (\<open>None\<close>: no such file); \<open>appended\<close> is the journal of the
  records handed to \<^verbatim>\<open>appendHistory\<close>. The mailbox is the listing of
  \<^verbatim>\<open>/workspace/ipc/input\<close>, in the order the operating system gives the names, an entry
  being a regular file with its text or a directory. \<open>stdout\<close> is the text written to
  standard output, \<open>requests\<close> the requests sent to the completion service, and \<open>ext\<close>
  whatever else the surroundings hold (the clock, the remote services, the rest of the file
  system). Lines for the diagnostic channel (\<^verbatim>\<open>log\<close>, standard error) are not part of the
  state, so the calls of \<^verbatim>\<open>log\<close> have no counterpart here.
\<close>

datatype entry = File string | Dir

record tool_call =
  call_id :: string
  fn_name :: string
  fn_arguments :: string

record assistant_message =
  content :: "string option"
  tool_calls :: "tool_call list option"

record choice =
  choice_message :: assistant_message
  finish_reason :: string

datatype chat_message =
    Param json
  | AssistantParam assistant_message
  | ToolParam string string

record completion_request =
  req_baseURL :: string
  req_model :: string
  req_messages :: "chat_message list"

record 'x world =
  history_file :: "string option"
  appended :: "json list"
  ipc_input :: "(string \<times> entry) list"
  stdout :: string
  requests :: "completion_request list"
  ext :: 'x

section \<open>Output framing (index.ts)\<close>

datatype out_status = Success | Error

record ContainerOutput =
  status :: out_status
  result :: "string option"
  newSessionId :: "string option"
  error :: "string option"

definition OUTPUT_START_MARKER :: string where
  "OUTPUT_START_MARKER = ''---NANOCLAW_OUTPUT_START---''"

definition OUTPUT_END_MARKER :: string where
  "OUTPUT_END_MARKER = ''---NANOCLAW_OUTPUT_END---''"

text \<open>
  \<^verbatim>\<open>console.log\<close> with one string writes the string and a line feed. In an output
  record \<open>result = None\<close> is \<^verbatim>\<open>null\<close>, and an optional field that is \<open>None\<close> is
  absent, so that \<^verbatim>\<open>JSON.stringify\<close> leaves it out; the properties come in the order
  in which every object literal of the program lists them.
\<close>

definition console_log :: "string \<Rightarrow> 'x world \<Rightarrow> 'x world" where
  "console_log s w = w\<lparr>stdout := stdout w @ s @ [newline]\<rparr>"

definition output_json :: "ContainerOutput \<Rightarrow> json" where
  "output_json output =
     JObj ([(''status'', JStr (case status output of Success \<Rightarrow> ''success'' | Error \<Rightarrow> ''error'')),
            (''result'', (case result output of None \<Rightarrow> JNull | Some r \<Rightarrow> JStr r))]
           @ (case newSessionId output of None \<Rightarrow> [] | Some s \<Rightarrow> [(''newSessionId'', JStr s)])
           @ (case error output of None \<Rightarrow> [] | Some e \<Rightarrow> [(''error'', JStr e)]))"

definition writeOutput :: "ContainerOutput \<Rightarrow> 'x world \<Rightarrow> 'x world" where
  "writeOutput output w =
     console_log OUTPUT_END_MARKER
       (console_log (stringify (output_json output))
          (console_log OUTPUT_START_MARKER w))"

definition frame :: "ContainerOutput \<Rightarrow> string" where
  \<comment> \<open>the text of one output frame\<close>
  "frame output =
     OUTPUT_START_MARKER @ [newline] @ stringify (output_json output) @ [newline]
       @ OUTPUT_END_MARKER @ [newline]"

subsection \<open>One record, three lines\<close>

lemma hex_digit_not_newline: "hex_digit n \<noteq> newline"
proof -
  have "hex_digit n \<in> set ''0123456789abcdef''"
    unfolding hex_digit_def by (rule nth_mem) simp
  then show ?thesis by (auto simp: newline_def)
qed

lemma quote_char_no_newline: "newline \<notin> set (quote_char c)"
  using hex_digit_not_newline [of "of_char c div 16"] hex_digit_not_newline [of "of_char c"]
  by (auto simp: quote_char_def newline_def)

lemma quote_no_newline: "newline \<notin> set (quote s)"
  by (auto simp: quote_def quote_char_no_newline) (simp add: newline_def)

lemma stringify_output_no_newline: "newline \<notin> set (stringify (output_json output))"
  using quote_no_newline
  by (cases "status output"; cases "result output"; cases "newSessionId output"; cases "error output")
     (auto simp: output_json_def newline_def)

lemma split_nl_three:
  assumes "newline \<notin> set a" "newline \<notin> set b" "newline \<notin> set c"
  shows "split_nl (a @ [newline] @ b @ [newline] @ c @ [newline]) = [a, b, c, []]"
  using assms by (simp add: split_nl_line split_nl_single)

text \<open>
  Claim C7. Emitting a record appends one frame to standard output and changes nothing
  else. The frame is the start marker, the serialized record and the end marker, each closed
  by a line feed. The serialized record holds no line feed, so it is one line, and the text
  of a frame splits into these three lines and nothing behind them.
\<close>

theorem writeOutput_spec:
  "writeOutput output w = w\<lparr>stdout := stdout w @ frame output\<rparr> \<and>
   frame output =
     ''---NANOCLAW_OUTPUT_START---'' @ [newline] @ stringify (output_json output) @ [newline]
       @ ''---NANOCLAW_OUTPUT_END---'' @ [newline] \<and>
   newline \<notin> set (stringify (output_json output)) \<and>
   split_nl (frame output) =
     [''---NANOCLAW_OUTPUT_START---'', stringify (output_json output),
      ''---NANOCLAW_OUTPUT_END---'', []]"
proof -
  have f: "writeOutput output w = w\<lparr>stdout := stdout w @ frame output\<rparr>"
    by (simp add: writeOutput_def console_log_def frame_def)
  have t: "frame output =
     ''---NANOCLAW_OUTPUT_START---'' @ [newline] @ stringify (output_json output) @ [newline]
       @ ''---NANOCLAW_OUTPUT_END---'' @ [newline]"
    by (simp add: frame_def OUTPUT_START_MARKER_def OUTPUT_END_MARKER_def)
  have n: "newline \<notin> set (stringify (output_json output))"
    by (rule stringify_output_no_newline)
  have m: "newline \<notin> set ''---NANOCLAW_OUTPUT_START---''" "newline \<notin> set ''---NANOCLAW_OUTPUT_END---''"
    by (simp_all add: newline_def)
  have l: "split_nl (frame output) =
     [''---NANOCLAW_OUTPUT_START---'', stringify (output_json output),
      ''---NANOCLAW_OUTPUT_END---'', []]"
    unfolding t using m(1) n m(2) by (rule split_nl_three)
  from f t n l show ?thesis by (intro conjI)
qed

section \<open>Control channel (index.ts)\<close>

text \<open>
  The mailbox directory is made where it is missing (\<^verbatim>\<open>mkdirSync\<close>, recursive), so its
  listing is all the model keeps. In the listing, reading a name that is missing or a
  directory throws, and so does unlinking it; \<open>None\<close> is the throw.
\<close>

definition IPC_INPUT_CLOSE_SENTINEL :: string where
  \<comment> \<open>the name of the sentinel inside the mailbox directory\<close>
  "IPC_INPUT_CLOSE_SENTINEL = ''_close''"

definition existsSync :: "string \<Rightarrow> (string \<times> entry) list \<Rightarrow> bool" where
  "existsSync name dir = (map_of dir name \<noteq> None)"

definition readFileSync :: "string \<Rightarrow> (string \<times> entry) list \<Rightarrow> string option" where
  "readFileSync name dir = (case map_of dir name of Some (File text) \<Rightarrow> Some text | _ \<Rightarrow> None)"

definition unlinkSync :: "string \<Rightarrow> (string \<times> entry) list \<Rightarrow> (string \<times> entry) list option" where
  "unlinkSync name dir =
     (case map_of dir name of
        Some (File text) \<Rightarrow> Some (filter (\<lambda>(n, e). n \<noteq> name) dir)
      | _ \<Rightarrow> None)"

definition try_unlink :: "string \<Rightarrow> (string \<times> entry) list \<Rightarrow> (string \<times> entry) list" where
  \<comment> \<open>\<^verbatim>\<open>try { fs.unlinkSync(p); } catch { /* ignore */ }\<close>\<close>
  "try_unlink name dir = (case unlinkSync name dir of Some dir' \<Rightarrow> dir' | None \<Rightarrow> dir)"

definition shouldClose :: "'x world \<Rightarrow> bool \<times> 'x world" where
  "shouldClose w =
     (if existsSync IPC_INPUT_CLOSE_SENTINEL (ipc_input w)
      then (True, w\<lparr>ipc_input := try_unlink IPC_INPUT_CLOSE_SENTINEL (ipc_input w)\<rparr>)
      else (False, w))"

definition message_text :: "json \<Rightarrow> json option" where
  \<comment> \<open>\<^verbatim>\<open>data.type === 'message' && data.text\<close>, for \<open>data\<close> other than \<^verbatim>\<open>null\<close>:
      the value pushed, if one is\<close>
  "message_text data =
     (if get_prop data ''type'' = Some (JStr ''message'') then
        (case get_prop data ''text'' of
           Some text \<Rightarrow> if truthy text then Some text else None
         | None \<Rightarrow> None)
      else None)"

text \<open>
  The loop of \<^verbatim>\<open>drainIpcInput\<close> over the sorted names. Each \<open>None\<close> branch is the
  \<^verbatim>\<open>catch\<close> of the loop body, which tries to unlink the file and ignores a failure;
  reading a property of \<^verbatim>\<open>null\<close> throws into the same \<^verbatim>\<open>catch\<close>, the file being
  unlinked already.
\<close>

fun drain_files ::
  "(string \<Rightarrow> json option) \<Rightarrow> string list \<Rightarrow> (string \<times> entry) list \<Rightarrow> json list
     \<Rightarrow> json list \<times> (string \<times> entry) list" where
  "drain_files parse [] dir messages = (messages, dir)"
| "drain_files parse (file # files) dir messages =
     (case readFileSync file dir of
        None \<Rightarrow> drain_files parse files (try_unlink file dir) messages
      | Some text \<Rightarrow>
          (case parse text of
             None \<Rightarrow> drain_files parse files (try_unlink file dir) messages
           | Some data \<Rightarrow>
               (case unlinkSync file dir of
                  None \<Rightarrow> drain_files parse files (try_unlink file dir) messages
                | Some dir' \<Rightarrow>
                    if data = JNull then drain_files parse files (try_unlink file dir') messages
                    else (case message_text data of
                            Some text \<Rightarrow> drain_files parse files dir' (messages @ [text])
                          | None \<Rightarrow> drain_files parse files dir' messages))))"

definition drainIpcInput :: "(string \<Rightarrow> json option) \<Rightarrow> 'x world \<Rightarrow> json list \<times> 'x world" where
  "drainIpcInput parse w =
     (let files = sort (filter (suffix ''.json'') (map fst (ipc_input w)));
          (messages, dir') = drain_files parse files (ipc_input w) []
      in (messages, w\<lparr>ipc_input := dir'\<rparr>))"


text \<open>
  What a name of the listing contributes to the drained sequence, written out case by case:
  a value of type \<open>message\<close> contributes its \<^verbatim>\<open>text\<close> property unless that is missing,
  \<^verbatim>\<open>null\<close>, \<^verbatim>\<open>false\<close>, the number zero or NaN, or the empty string; a name contributes
  what the value parsed from its regular file does.
\<close>

definition contribution :: "json \<Rightarrow> json option" where
  "contribution data =
     (if get_prop data ''type'' = Some (JStr ''message'') then
        (case get_prop data ''text'' of
           None \<Rightarrow> None
         | Some JNull \<Rightarrow> None
         | Some (JBool b) \<Rightarrow> if b then Some (JBool b) else None
         | Some (JNum n) \<Rightarrow> if n = ''0'' \<or> n = ''NaN'' then None else Some (JNum n)
         | Some (JStr s) \<Rightarrow> if s = [] then None else Some (JStr s)
         | Some (JArr vs) \<Rightarrow> Some (JArr vs)
         | Some (JObj kvs) \<Rightarrow> Some (JObj kvs))
      else None)"

definition payload :: "(string \<Rightarrow> json option) \<Rightarrow> (string \<times> entry) list \<Rightarrow> string \<Rightarrow> json option" where
  "payload parse dir name =
     (case map_of dir name of
        Some (File text) \<Rightarrow> (case parse text of Some data \<Rightarrow> contribution data | None \<Rightarrow> None)
      | _ \<Rightarrow> None)"

definition is_file :: "(string \<times> entry) list \<Rightarrow> string \<Rightarrow> bool" where
  "is_file dir name = (case map_of dir name of Some (File text) \<Rightarrow> True | _ \<Rightarrow> False)"

definition sample_parse :: "string \<Rightarrow> json option" where
  \<comment> \<open>a stand-in for \<^verbatim>\<open>JSON.parse\<close> on the sample files: one text does not parse, one
      parses to \<^verbatim>\<open>null\<close>, any other is taken for a message file with that text\<close>
  "sample_parse s =
     (if s = ''bad'' then None
      else if s = ''null'' then Some JNull
      else Some (JObj [(''type'', JStr ''message''), (''text'', JStr s)]))"

definition sample_world :: "unit world" where
  "sample_world =
     \<lparr>history_file = None, appended = [],
      ipc_input = [(''2-b.json'', File ''two''), (''_close'', File []), (''1-a.json'', File ''one''),
                   (''3-c.json'', File ''bad''), (''4-d.json'', File []), (''notes.txt'', File ''n'')],
      stdout = [], requests = [], ext = ()\<rparr>"



subsection \<open>Draining and closing\<close>

lemma map_of_filter_name:
  "map_of (filter (\<lambda>(n, e). n \<noteq> f) d) g = (if g = f then None else map_of d g)"
  by (induction d) auto

lemma try_unlink_eq:
  "try_unlink f d = (if is_file d f then filter (\<lambda>(n, e). n \<noteq> f) d else d)"
  by (auto simp: try_unlink_def unlinkSync_def is_file_def split: option.splits entry.splits)

lemma map_of_try_unlink:
  "map_of (try_unlink f d) g = (if g = f \<and> is_file d f then None else map_of d g)"
  by (simp add: try_unlink_eq map_of_filter_name)

lemma try_unlink_twice: "try_unlink f (try_unlink f d) = try_unlink f d"
  by (simp add: try_unlink_eq is_file_def map_of_filter_name)

lemma message_text_null: "message_text JNull = None"
  by (simp add: message_text_def get_prop_def)

lemma message_text_contribution: "message_text data = contribution data"
proof (cases "get_prop data ''type'' = Some (JStr ''message'')")
  case False
  then show ?thesis by (simp add: message_text_def contribution_def)
next
  case True
  show ?thesis
  proof (cases "get_prop data ''text''")
    case None
    with True show ?thesis by (simp add: message_text_def contribution_def)
  next
    case (Some v)
    with True show ?thesis by (cases v) (auto simp: message_text_def contribution_def)
  qed
qed

lemma drain_files_step:
  "drain_files parse (f # fs) d acc =
     drain_files parse fs (try_unlink f d)
       (acc @ (case payload parse d f of Some t \<Rightarrow> [t] | None \<Rightarrow> []))"
proof (cases "map_of d f")
  case None
  then show ?thesis
    by (simp add: readFileSync_def payload_def)
next
  case (Some e)
  show ?thesis
  proof (cases e)
    case Dir
    with Some show ?thesis by (simp add: readFileSync_def payload_def)
  next
    case (File t)
    with Some have u: "unlinkSync f d = Some (try_unlink f d)"
      by (simp add: try_unlink_def unlinkSync_def)
    show ?thesis
    proof (cases "parse t")
      case None
      with Some File show ?thesis by (simp add: readFileSync_def payload_def)
    next
      case (Some data)
      with \<open>map_of d f = Some e\<close> File u show ?thesis
        by (cases "message_text data")
           (auto simp: readFileSync_def payload_def try_unlink_twice message_text_null
              message_text_contribution [symmetric])
    qed
  qed
qed


lemma is_file_try_unlink:
  "g \<noteq> f \<Longrightarrow> is_file (try_unlink f d) g = is_file d g"
  by (simp add: is_file_def map_of_try_unlink)




lemma map_of_filter_names:
  "map_of (filter (\<lambda>(n, e). P n) d) g = (if P g then map_of d g else None)"
  by (induction d) auto

lemma map_of_distinct_mem:
  "distinct (map fst d) \<Longrightarrow> (n, e) \<in> set d \<Longrightarrow> map_of d n = Some e"
  by simp

lemma drain_files_keeps:
  "g \<notin> set fs \<Longrightarrow> map_of (snd (drain_files parse fs d acc)) g = map_of d g"
proof (induction fs arbitrary: d acc)
  case Nil
  show ?case by simp
next
  case (Cons f fs)
  then show ?case
    unfolding drain_files_step by (simp add: map_of_try_unlink)
qed

lemma drain_files_keeps_others:
  "\<forall>f\<in>set fs. P f \<Longrightarrow>
   filter (\<lambda>(n, e). \<not> P n) (snd (drain_files parse fs d acc)) = filter (\<lambda>(n, e). \<not> P n) d"
proof (induction fs arbitrary: d acc)
  case Nil
  show ?case by simp
next
  case (Cons f fs)
  have "filter (\<lambda>(n, e). \<not> P n) (try_unlink f d) = filter (\<lambda>(n, e). \<not> P n) d"
    using Cons.prems by (auto simp: try_unlink_eq intro!: filter_cong)
  with Cons show ?case
    unfolding drain_files_step by simp
qed

lemma try_unlink_filter:
  "P f \<Longrightarrow> try_unlink f (filter (\<lambda>(n, e). P n) d) = filter (\<lambda>(n, e). P n) (try_unlink f d)"
  by (auto simp: try_unlink_eq is_file_def map_of_filter_names intro!: filter_cong)

lemma drain_files_restrict:
  "\<forall>f\<in>set fs. P f \<Longrightarrow>
   fst (drain_files parse fs (filter (\<lambda>(n, e). P n) d) acc) = fst (drain_files parse fs d acc)"
proof (induction fs arbitrary: d acc)
  case Nil
  show ?case by simp
next
  case (Cons f fs)
  from Cons.prems have pf: "P f" by simp
  have "payload parse (filter (\<lambda>(n, e). P n) d) f = payload parse d f"
    using pf by (simp add: payload_def map_of_filter_names)
  with Cons pf show ?case
    unfolding drain_files_step by (simp add: try_unlink_filter)
qed

lemma json_names_restrict:
  "filter P (map fst (filter (\<lambda>(n, e). P n) d)) = filter P (map fst d)"
  by (induction d) auto

lemma drain_fst:
  "fst (drainIpcInput parse w) =
     fst (drain_files parse (sort (filter (suffix ''.json'') (map fst (ipc_input w)))) (ipc_input w) [])"
  by (simp add: drainIpcInput_def Let_def split: prod.splits)

lemma drain_snd:
  "snd (drainIpcInput parse w) =
     w\<lparr>ipc_input := snd (drain_files parse (sort (filter (suffix ''.json'') (map fst (ipc_input w)))) (ipc_input w) [])\<rparr>"
  by (simp add: drainIpcInput_def Let_def split: prod.splits)

text \<open>
  Claim C8. Where the sentinel file exists, \<^verbatim>\<open>shouldClose()\<close> returns true and removes it;
  a second call right after returns false and changes nothing. No other entry of the mailbox
  is touched.
\<close>

theorem shouldClose_spec:
  "map_of (ipc_input w) IPC_INPUT_CLOSE_SENTINEL = Some (File c) \<Longrightarrow>
     fst (shouldClose w) \<and>
     \<not> existsSync IPC_INPUT_CLOSE_SENTINEL (ipc_input (snd (shouldClose w))) \<and>
     \<not> fst (shouldClose (snd (shouldClose w))) \<and>
     snd (shouldClose (snd (shouldClose w))) = snd (shouldClose w) \<and>
     (\<forall>n. n \<noteq> IPC_INPUT_CLOSE_SENTINEL \<longrightarrow>
        map_of (ipc_input (snd (shouldClose w))) n = map_of (ipc_input w) n)"
  by (simp add: shouldClose_def existsSync_def map_of_try_unlink is_file_def)

theorem shouldClose_spec_witness:
  "map_of (ipc_input sample_world) IPC_INPUT_CLOSE_SENTINEL = Some (File []) \<and>
   fst (shouldClose sample_world) \<and>
   \<not> existsSync IPC_INPUT_CLOSE_SENTINEL (ipc_input (snd (shouldClose sample_world))) \<and>
   \<not> fst (shouldClose (snd (shouldClose sample_world))) \<and>
   map_of (ipc_input (snd (shouldClose sample_world))) ''1-a.json'' = Some (File ''one'')"
proof -
  have h: "map_of (ipc_input sample_world) IPC_INPUT_CLOSE_SENTINEL = Some (File [])"
    by (simp add: sample_world_def IPC_INPUT_CLOSE_SENTINEL_def)
  have n: "''1-a.json'' \<noteq> IPC_INPUT_CLOSE_SENTINEL"
    by (simp add: IPC_INPUT_CLOSE_SENTINEL_def)
  have m: "map_of (ipc_input sample_world) ''1-a.json'' = Some (File ''one'')"
    by (simp add: sample_world_def)
  from shouldClose_spec [OF h] h n m show ?thesis by simp
qed




text \<open>
  Claim C10. An entry whose name does not end in \<open>.json\<close> is still there after
  \<^verbatim>\<open>drain()\<close>, unchanged and in its place; the sentinel is one such entry. It contributes
  nothing and is not read: the drained sequence is the one of the mailbox without these
  entries.
\<close>

theorem drainIpcInput_frame:
  "(\<forall>n. \<not> suffix ''.json'' n \<longrightarrow>
      map_of (ipc_input (snd (drainIpcInput parse w))) n = map_of (ipc_input w) n) \<and>
   filter (\<lambda>(n, e). \<not> suffix ''.json'' n) (ipc_input (snd (drainIpcInput parse w))) =
     filter (\<lambda>(n, e). \<not> suffix ''.json'' n) (ipc_input w) \<and>
   fst (drainIpcInput parse w) =
     fst (drainIpcInput parse (w\<lparr>ipc_input := filter (\<lambda>(n, e). suffix ''.json'' n) (ipc_input w)\<rparr>)) \<and>
   map_of (ipc_input (snd (drainIpcInput parse w))) IPC_INPUT_CLOSE_SENTINEL =
     map_of (ipc_input w) IPC_INPUT_CLOSE_SENTINEL"
proof -
  let ?d = "ipc_input w"
  let ?fs = "sort (filter (suffix ''.json'') (map fst ?d))"
  have all: "\<forall>f\<in>set ?fs. suffix ''.json'' f" by simp
  have keep: "map_of (ipc_input (snd (drainIpcInput parse w))) n = map_of ?d n"
    if "\<not> suffix ''.json'' n" for n
  proof -
    from that have "n \<notin> set ?fs" by simp
    then show ?thesis by (simp add: drain_snd drain_files_keeps)
  qed
  have others: "filter (\<lambda>(n, e). \<not> suffix ''.json'' n) (ipc_input (snd (drainIpcInput parse w))) =
     filter (\<lambda>(n, e). \<not> suffix ''.json'' n) ?d"
    using drain_files_keeps_others [OF all] by (simp add: drain_snd)
  have names: "filter (suffix ''.json'') (map fst (filter (\<lambda>(n, e). suffix ''.json'' n) ?d))
      = filter (suffix ''.json'') (map fst ?d)"
    by (rule json_names_restrict)
  have same: "fst (drainIpcInput parse w) =
     fst (drainIpcInput parse (w\<lparr>ipc_input := filter (\<lambda>(n, e). suffix ''.json'' n) ?d\<rparr>))"
    using drain_files_restrict [OF all, of parse ?d "[]"] by (simp add: drain_fst names)
  have "\<not> suffix ''.json'' IPC_INPUT_CLOSE_SENTINEL"
    by (simp add: IPC_INPUT_CLOSE_SENTINEL_def suffix_def)
  then have sentinel: "map_of (ipc_input (snd (drainIpcInput parse w))) IPC_INPUT_CLOSE_SENTINEL =
     map_of ?d IPC_INPUT_CLOSE_SENTINEL"
    by (rule keep)
  from keep others same sentinel show ?thesis by blast
qed

theorem drainIpcInput_frame_witness:
  "\<not> suffix ''.json'' ''notes.txt'' \<and>
   map_of (ipc_input (snd (drainIpcInput sample_parse sample_world))) ''notes.txt'' = Some (File ''n'') \<and>
   map_of (ipc_input (snd (drainIpcInput sample_parse sample_world))) IPC_INPUT_CLOSE_SENTINEL
     = Some (File []) \<and>
   filter (\<lambda>(n, e). \<not> suffix ''.json'' n) (ipc_input (snd (drainIpcInput sample_parse sample_world)))
     = [(''_close'', File []), (''notes.txt'', File ''n'')]"
proof -
  have n: "\<not> suffix ''.json'' ''notes.txt''" by (simp add: suffix_def)
  have m: "map_of (ipc_input sample_world) ''notes.txt'' = Some (File ''n'')"
    "map_of (ipc_input sample_world) IPC_INPUT_CLOSE_SENTINEL = Some (File [])"
    by (simp_all add: sample_world_def IPC_INPUT_CLOSE_SENTINEL_def)
  have f: "filter (\<lambda>(n, e). \<not> suffix ''.json'' n) (ipc_input sample_world)
     = [(''_close'', File []), (''notes.txt'', File ''n'')]"
    by (simp add: sample_world_def suffix_def)
  note t = drainIpcInput_frame [of sample_parse sample_world]
  from t n m(1) have r1: "map_of (ipc_input (snd (drainIpcInput sample_parse sample_world))) ''notes.txt'' = Some (File ''n'')"
    by simp
  from t m(2) have r2: "map_of (ipc_input (snd (drainIpcInput sample_parse sample_world))) IPC_INPUT_CLOSE_SENTINEL = Some (File [])"
    by simp
  from t f have r3: "filter (\<lambda>(n, e). \<not> suffix ''.json'' n) (ipc_input (snd (drainIpcInput sample_parse sample_world)))
     = [(''_close'', File []), (''notes.txt'', File ''n'')]"
    by simp
  from n r1 r2 r3 show ?thesis by simp
qed

section \<open>Services around the process\<close>

text \<open>
  What the program calls and cannot be computed from its own text is a parameter of the
  model, gathered in one record.
  \<^item> \<open>JSON_parse\<close> is \<^verbatim>\<open>JSON.parse\<close>, with \<open>None\<close> where it throws.
  \<^item> \<open>create\<close> is \<^verbatim>\<open>client.chat.completions.create\<close> with the fixed tool catalogue: it gets
    the request and the state of the surroundings, and either throws (\<open>Inl\<close> the message)
    or returns \<^verbatim>\<open>response.choices[0]\<close>, \<open>None\<close> where there is no choice.
  \<^item> \<open>executeTool\<close> is the tool dispatcher of \<^verbatim>\<open>tools.ts\<close>. It catches every error and
    returns a text. Its file tools reach the group workspace, where the history file
    lies, and its other tools reach remote services; so a call gets and gives back the
    history file and the surroundings, and nothing else of the state.
  \<^item> \<open>toISOString\<close> and \<open>Date_now\<close> read the clock; \<open>loadSystemPrompt\<close> is the function of
    that name, which reads a file and the clock.
  \<^item> \<open>parse_input\<close> is the first \<^verbatim>\<open>try\<close> block of \<^verbatim>\<open>main\<close>: parsing standard input and
    reading \<^verbatim>\<open>groupFolder\<close> from the result, which is then taken at its declared type
    \<^verbatim>\<open>ContainerInput\<close>; \<open>Inl\<close> is the message of what was thrown.
  \<^item> \<open>host\<close> is what the host process does to the mailbox while the program is suspended.
\<close>

record ContainerInput =
  prompt :: string
  sessionId :: "string option"
  groupFolder :: string
  chatJid :: string
  isMain :: bool
  isScheduledTask :: "bool option"
  assistantName :: "string option"
  secrets :: "(string \<times> string) list option"

record 'x services =
  JSON_parse :: "string \<Rightarrow> json option"
  create :: "completion_request \<Rightarrow> 'x \<Rightarrow> (string + choice option) \<times> 'x"
  executeTool :: "string \<Rightarrow> json \<Rightarrow> string \<Rightarrow> string option \<times> 'x \<Rightarrow> string \<times> string option \<times> 'x"
  toISOString :: "'x \<Rightarrow> string"
  Date_now :: "'x \<Rightarrow> nat"
  loadSystemPrompt :: "string option \<Rightarrow> 'x \<Rightarrow> string"
  parse_input :: "string \<Rightarrow> string + ContainerInput"
  host :: "(string \<times> entry) list \<Rightarrow> 'x \<Rightarrow> (string \<times> entry) list \<times> 'x"

section \<open>Conversation engine (index.ts, memory.ts)\<close>

text \<open>
  \<^verbatim>\<open>appendHistory\<close> adds one line to the history file, making the file where it is missing.
  Every caller passes an object literal with the three properties of \<open>historyEntry\<close>.
\<close>

definition MAX_TOOL_ROUNDS :: nat where
  "MAX_TOOL_ROUNDS = 15"

definition historyEntry :: "string \<Rightarrow> string \<Rightarrow> string \<Rightarrow> json" where
  "historyEntry role text timestamp =
     JObj [(''role'', JStr role), (''content'', JStr text), (''timestamp'', JStr timestamp)]"

definition appendHistory :: "json \<Rightarrow> 'x world \<Rightarrow> 'x world" where
  "appendHistory message w =
     w\<lparr>history_file :=
         Some ((case history_file w of None \<Rightarrow> [] | Some text \<Rightarrow> text)
               @ stringify message @ [newline]),
       appended := appended w @ [message]\<rparr>"

definition defined_field :: "string \<Rightarrow> json option \<Rightarrow> (string \<times> json) list" where
  "defined_field k v = (case v of None \<Rightarrow> [] | Some x \<Rightarrow> [(k, x)])"

definition truthy_field :: "string \<Rightarrow> json option \<Rightarrow> (string \<times> json) list" where
  "truthy_field k v = (case v of None \<Rightarrow> [] | Some x \<Rightarrow> if truthy x then [(k, x)] else [])"

definition openai_message :: "json \<Rightarrow> string + json" where
  "openai_message m =
     (if m = JNull then
        Inl (''Cannot read properties of null (reading '' @ [CHR 0x27] @ ''role'' @ [CHR 0x27] @ '')'')
      else
        Inr (JObj (defined_field ''role'' (get_prop m ''role'')
                   @ defined_field ''content'' (get_prop m ''content'')
                   @ truthy_field ''name'' (get_prop m ''name'')
                   @ truthy_field ''tool_call_id'' (get_prop m ''tool_call_id'')
                   @ truthy_field ''tool_calls'' (get_prop m ''tool_calls''))))"

fun historyToOpenAI :: "json list \<Rightarrow> string + json list" where
  "historyToOpenAI [] = Inr []"
| "historyToOpenAI (m # ms) =
     (case openai_message m of
        Inl err \<Rightarrow> Inl err
      | Inr msg \<Rightarrow>
          (case historyToOpenAI ms of
             Inl err \<Rightarrow> Inl err
           | Inr msgs \<Rightarrow> Inr (msg # msgs)))"

fun run_tool_calls ::
  "'x services \<Rightarrow> string \<Rightarrow> tool_call list \<Rightarrow> chat_message list \<Rightarrow> 'x world
     \<Rightarrow> chat_message list \<times> 'x world" where
  "run_tool_calls sv jid [] messages w = (messages, w)"
| "run_tool_calls sv jid (toolCall # toolCalls) messages w =
     (let fnName = fn_name toolCall;
          fnArgs = (case JSON_parse sv (fn_arguments toolCall) of
                      Some args \<Rightarrow> args
                    | None \<Rightarrow> JObj []);
          (res, file, x) = executeTool sv fnName fnArgs jid (history_file w, ext w)
      in run_tool_calls sv jid toolCalls
           (messages @ [ToolParam (call_id toolCall) res])
           (w\<lparr>history_file := file, ext := x\<rparr>))"

definition final_answer ::
  "'x services \<Rightarrow> assistant_message \<Rightarrow> 'x world \<Rightarrow> (string + string) \<times> 'x world" where
  "final_answer sv assistantMessage w =
     (let text = stripThinkTags (case content assistantMessage of Some c \<Rightarrow> c | None \<Rightarrow> [])
      in (Inr text, appendHistory (historyEntry ''assistant'' text (toISOString sv (ext w))) w))"

datatype 'x round_result =
    Return "string + string" "'x world"
  | Continue "chat_message list" "'x world"

definition round ::
  "'x services \<Rightarrow> string \<Rightarrow> string \<Rightarrow> string \<Rightarrow> chat_message list \<Rightarrow> 'x world \<Rightarrow> 'x round_result" where
  "round sv base model jid messages w =
     (let request = \<lparr>req_baseURL = base, req_model = model, req_messages = messages\<rparr>;
          (response, x) = create sv request (ext w);
          w1 = w\<lparr>requests := requests w @ [request], ext := x\<rparr>
      in case response of
           Inl err \<Rightarrow> Return (Inl err) w1
         | Inr None \<Rightarrow> Return (Inr ''No response from model.'') w1
         | Inr (Some choice) \<Rightarrow>
             (let assistantMessage = choice_message choice;
                  messages1 = messages @ [AssistantParam assistantMessage]
              in case tool_calls assistantMessage of
                   None \<Rightarrow> (case final_answer sv assistantMessage w1 of (r, w2) \<Rightarrow> Return r w2)
                 | Some [] \<Rightarrow> (case final_answer sv assistantMessage w1 of (r, w2) \<Rightarrow> Return r w2)
                 | Some (c # cs) \<Rightarrow>
                     (case run_tool_calls sv jid (c # cs) messages1 w1 of
                        (messages2, w2) \<Rightarrow>
                          if finish_reason choice = ''stop''
                          then (case final_answer sv assistantMessage w2 of (r, w3) \<Rightarrow> Return r w3)
                          else Continue messages2 w2)))"

function round_loop ::
  "'x services \<Rightarrow> string \<Rightarrow> string \<Rightarrow> string \<Rightarrow> nat \<Rightarrow> chat_message list \<Rightarrow> 'x world
     \<Rightarrow> (string + string) \<times> 'x world" where
  "round_loop sv base model jid rounds messages w =
     (if rounds < MAX_TOOL_ROUNDS then
        (case round sv base model jid messages w of
           Return r w' \<Rightarrow> (r, w')
         | Continue messages' w' \<Rightarrow> round_loop sv base model jid (rounds + 1) messages' w')
      else (Inr ''Reached maximum tool call rounds. Please try a simpler request.'', w))"
  by pat_completeness auto
termination
  by (relation "measure (\<lambda>(sv, base, model, jid, rounds, messages, w). MAX_TOOL_ROUNDS - rounds)")
     auto

definition build_messages ::
  "'x services \<Rightarrow> string \<Rightarrow> json \<Rightarrow> 'x world \<Rightarrow> string + chat_message list" where
  "build_messages sv systemPrompt userEntry w =
     (case historyToOpenAI (loadHistory (JSON_parse sv) (history_file w) @ [userEntry]) of
        Inl err \<Rightarrow> Inl err
      | Inr msgs \<Rightarrow>
          Inr (Param (JObj [(''role'', JStr ''system''), (''content'', JStr systemPrompt)])
               # map Param msgs))"

definition runConversation ::
  "'x services \<Rightarrow> string \<Rightarrow> string \<Rightarrow> string \<Rightarrow> string \<Rightarrow> string \<Rightarrow> 'x world
     \<Rightarrow> (string + string) \<times> 'x world" where
  "runConversation sv base model systemPrompt userMessage jid w =
     (let userEntry = historyEntry ''user'' userMessage (toISOString sv (ext w))
      in case build_messages sv systemPrompt userEntry w of
           Inl err \<Rightarrow> (Inl err, appendHistory userEntry w)
         | Inr messages \<Rightarrow> round_loop sv base model jid 0 messages (appendHistory userEntry w))"

text \<open>
  Notions the claims about the engine use: a dispatcher that leaves the history file alone,
  a completion service that asks for a tool on every call and never says stop, the cleaned
  text of an assistant message, and the history file after some records were added.
\<close>

definition tools_keep_history :: "'x services \<Rightarrow> bool" where
  "tools_keep_history sv \<longleftrightarrow>
     (\<forall>name args jid file x. fst (snd (executeTool sv name args jid (file, x))) = file)"

definition always_tool_calls :: "'x services \<Rightarrow> bool" where
  "always_tool_calls sv \<longleftrightarrow>
     (\<forall>request x. \<exists>c x'. create sv request x = (Inr (Some c), x') \<and>
         tool_calls (choice_message c) \<noteq> None \<and> tool_calls (choice_message c) \<noteq> Some [] \<and>
         finish_reason c \<noteq> ''stop'')"

definition cleaned :: "assistant_message \<Rightarrow> string" where
  "cleaned m = stripThinkTags (case content m of Some c \<Rightarrow> c | None \<Rightarrow> [])"

definition log_after :: "json list \<Rightarrow> string option \<Rightarrow> string option" where
  "log_after recs file =
     (if recs = [] then file
      else Some ((case file of None \<Rightarrow> [] | Some t \<Rightarrow> t)
                 @ concat (map (\<lambda>r. stringify r @ [newline]) recs)))"

definition cap_text :: string where
  "cap_text = ''Reached maximum tool call rounds. Please try a simpler request.''"

definition userEntry :: "'x services \<Rightarrow> string \<Rightarrow> 'x world \<Rightarrow> json" where
  "userEntry sv userMessage w = historyEntry ''user'' userMessage (toISOString sv (ext w))"

text \<open>
  Sample services for the worked examples: a completion service that asks for one tool on
  its first call and answers on every later one (the state of the surroundings counts the
  calls), a dispatcher with a fixed answer, a fixed clock, an input parser that fails on
  one text, and a host that does nothing.
\<close>

definition tool_choice :: choice where
  "tool_choice =
     \<lparr>choice_message =
        \<lparr>content = None,
         tool_calls = Some [\<lparr>call_id = ''call_1'', fn_name = ''list_files'', fn_arguments = ''bad''\<rparr>]\<rparr>,
      finish_reason = ''tool_calls''\<rparr>"

definition final_choice :: choice where
  "final_choice =
     \<lparr>choice_message = \<lparr>content = Some ''<think>scratch</think>hello'', tool_calls = None\<rparr>,
      finish_reason = ''stop''\<rparr>"

definition sample_input :: "string \<Rightarrow> ContainerInput" where
  "sample_input p =
     \<lparr>prompt = p, sessionId = None, groupFolder = ''g'', chatJid = ''t@g.us'', isMain = False,
      isScheduledTask = None, assistantName = None, secrets = None\<rparr>"

definition stub_service :: "nat services" where
  "stub_service =
     \<lparr>JSON_parse = sample_parse,
      create = (\<lambda>request n. (Inr (Some (if n = 0 then tool_choice else final_choice)), Suc n)),
      executeTool = (\<lambda>name args jid (file, n). (''(empty directory)'', file, n)),
      toISOString = (\<lambda>n. ''2026-11-03T10:00:00.000Z''),
      Date_now = (\<lambda>n. 1730),
      loadSystemPrompt = (\<lambda>name n. ''You are Betty.''),
      parse_input = (\<lambda>s. if s = ''not json'' then Inl ''Unexpected token o'' else Inr (sample_input s)),
      host = (\<lambda>dir n. (dir, n))\<rparr>"

definition looping_service :: "nat services" where
  "looping_service = stub_service\<lparr>create := (\<lambda>request n. (Inr (Some tool_choice), Suc n))\<rparr>"

definition fresh_world :: "nat \<Rightarrow> nat world" where
  "fresh_world n =
     \<lparr>history_file = None, appended = [], ipc_input = [], stdout = [], requests = [], ext = n\<rparr>"

subsection \<open>One round, and the loop of rounds\<close>

lemma appendHistory_simps:
  "appended (appendHistory m w) = appended w @ [m]"
  "history_file (appendHistory m w) = log_after [m] (history_file w)"
  "requests (appendHistory m w) = requests w"
  "ext (appendHistory m w) = ext w"
  "stdout (appendHistory m w) = stdout w"
  "ipc_input (appendHistory m w) = ipc_input w"
  by (simp_all add: appendHistory_def log_after_def)

lemma log_after_two: "log_after [b] (log_after [a] file) = log_after [a, b] file"
  by (simp add: log_after_def)

lemma log_after_Nil: "log_after [] file = file"
  by (simp add: log_after_def)

lemma final_answer_eq:
  "final_answer sv m w =
     (Inr (cleaned m), appendHistory (historyEntry ''assistant'' (cleaned m) (toISOString sv (ext w))) w)"
  by (simp add: final_answer_def cleaned_def Let_def)

lemma run_tool_calls_frame:
  "run_tool_calls sv jid tcs ms w = (ms', w') \<Longrightarrow>
     appended w' = appended w \<and> requests w' = requests w \<and> stdout w' = stdout w \<and>
     ipc_input w' = ipc_input w \<and>
     (tools_keep_history sv \<longrightarrow> history_file w' = history_file w) \<and>
     (\<exists>rs. length rs = length tcs \<and> ms' = ms @ map2 ToolParam (map call_id tcs) rs)"
proof (induction tcs arbitrary: ms w)
  case Nil
  then show ?case by auto
next
  case (Cons tc tcs)
  let ?args = "case JSON_parse sv (fn_arguments tc) of Some a \<Rightarrow> a | None \<Rightarrow> JObj []"
  obtain res hf x where e: "executeTool sv (fn_name tc) ?args jid (history_file w, ext w) = (res, hf, x)"
    by (cases "executeTool sv (fn_name tc) ?args jid (history_file w, ext w)") auto
  let ?w1 = "w\<lparr>history_file := hf, ext := x\<rparr>"
  from Cons.prems e have r: "run_tool_calls sv jid tcs (ms @ [ToolParam (call_id tc) res]) ?w1 = (ms', w')"
    by (simp add: Let_def)
  note ih = Cons.IH [OF r]
  from ih obtain rs where rs: "length rs = length tcs"
    "ms' = (ms @ [ToolParam (call_id tc) res]) @ map2 ToolParam (map call_id tcs) rs" by blast
  have k: "tools_keep_history sv \<longrightarrow> hf = history_file w"
    using e unfolding tools_keep_history_def by (metis fst_conv snd_conv)
  have "length (res # rs) = length (tc # tcs) \<and>
        ms' = ms @ map2 ToolParam (map call_id (tc # tcs)) (res # rs)"
    using rs by simp
  then have ex: "\<exists>rs. length rs = length (tc # tcs) \<and> ms' = ms @ map2 ToolParam (map call_id (tc # tcs)) rs"
    by blast
  from ih k ex show ?case by simp
qed

lemma round_Return:
  assumes "round sv base model jid ms w = Return r w'"
  shows "requests w' = requests w @ [\<lparr>req_baseURL = base, req_model = model, req_messages = ms\<rparr>] \<and>
     stdout w' = stdout w \<and> ipc_input w' = ipc_input w \<and>
     ((appended w' = appended w \<and> (tools_keep_history sv \<longrightarrow> history_file w' = history_file w)) \<or>
      (\<exists>m ts. r = Inr (cleaned m) \<and>
         appended w' = appended w @ [historyEntry ''assistant'' (cleaned m) ts] \<and>
         (tools_keep_history sv \<longrightarrow>
            history_file w' = log_after [historyEntry ''assistant'' (cleaned m) ts] (history_file w))))"
proof -
  let ?req = "\<lparr>req_baseURL = base, req_model = model, req_messages = ms\<rparr>"
  obtain response x where c: "create sv ?req (ext w) = (response, x)"
    by (cases "create sv ?req (ext w)") auto
  let ?w1 = "w\<lparr>requests := requests w @ [?req], ext := x\<rparr>"
  show ?thesis
  proof (cases response)
    case (Inl err)
    with assms c show ?thesis by (auto simp: round_def Let_def)
  next
    case (Inr co)
    show ?thesis
    proof (cases co)
      case None
      with assms c Inr show ?thesis by (auto simp: round_def Let_def)
    next
      case (Some ch)
      let ?m = "choice_message ch"
      show ?thesis
      proof (cases "tool_calls ?m = None \<or> tool_calls ?m = Some []")
        case True
        with assms c Inr Some
        have "r = Inr (cleaned ?m)"
          "w' = appendHistory (historyEntry ''assistant'' (cleaned ?m) (toISOString sv x)) ?w1"
          by (auto simp: round_def Let_def final_answer_eq)
        then show ?thesis by (auto simp: appendHistory_simps)
      next
        case False
        then obtain tc tcs where t: "tool_calls ?m = Some (tc # tcs)"
          by (cases "tool_calls ?m") (auto simp: neq_Nil_conv)
        obtain ms2 w2 where rt: "run_tool_calls sv jid (tc # tcs) (ms @ [AssistantParam ?m]) ?w1 = (ms2, w2)"
          by (cases "run_tool_calls sv jid (tc # tcs) (ms @ [AssistantParam ?m]) ?w1") auto
        note f = run_tool_calls_frame [OF rt]
        from assms c Inr Some t rt have stop: "finish_reason ch = ''stop''"
          by (auto simp: round_def Let_def split: if_splits)
        with assms c Inr Some t rt
        have "r = Inr (cleaned ?m)"
          "w' = appendHistory (historyEntry ''assistant'' (cleaned ?m) (toISOString sv (ext w2))) w2"
          by (auto simp: round_def Let_def final_answer_eq)
        with f show ?thesis by (auto simp: appendHistory_simps)
      qed
    qed
  qed
qed

lemma round_Continue:
  assumes "round sv base model jid ms w = Continue ms' w'"
  shows "requests w' = requests w @ [\<lparr>req_baseURL = base, req_model = model, req_messages = ms\<rparr>] \<and>
     stdout w' = stdout w \<and> ipc_input w' = ipc_input w \<and>
     appended w' = appended w \<and> (tools_keep_history sv \<longrightarrow> history_file w' = history_file w) \<and>
     (\<exists>m tcs rs. tool_calls m = Some tcs \<and> tcs \<noteq> [] \<and> length rs = length tcs \<and>
        ms' = ms @ AssistantParam m # map2 ToolParam (map call_id tcs) rs)"
proof -
  let ?req = "\<lparr>req_baseURL = base, req_model = model, req_messages = ms\<rparr>"
  obtain response x where c: "create sv ?req (ext w) = (response, x)"
    by (cases "create sv ?req (ext w)") auto
  let ?w1 = "w\<lparr>requests := requests w @ [?req], ext := x\<rparr>"
  from assms c obtain ch where ch: "response = Inr (Some ch)"
    by (auto simp: round_def Let_def final_answer_eq split: sum.splits option.splits list.splits)
  let ?m = "choice_message ch"
  from assms c ch obtain tc tcs where t: "tool_calls ?m = Some (tc # tcs)"
    by (auto simp: round_def Let_def final_answer_eq split: option.splits list.splits)
  obtain ms2 w2 where rt: "run_tool_calls sv jid (tc # tcs) (ms @ [AssistantParam ?m]) ?w1 = (ms2, w2)"
    by (cases "run_tool_calls sv jid (tc # tcs) (ms @ [AssistantParam ?m]) ?w1") auto
  note f = run_tool_calls_frame [OF rt]
  from assms c ch t rt have e: "ms' = ms2" "w' = w2"
    by (auto simp: round_def Let_def final_answer_eq split: if_splits)
  from f obtain rs where rs: "length rs = length (tc # tcs)"
    "ms2 = (ms @ [AssistantParam ?m]) @ map2 ToolParam (map call_id (tc # tcs)) rs" by blast
  have "tool_calls ?m = Some (tc # tcs) \<and> tc # tcs \<noteq> [] \<and> length rs = length (tc # tcs) \<and>
        ms' = ms @ AssistantParam ?m # map2 ToolParam (map call_id (tc # tcs)) rs"
    using t rs e by simp
  then have "\<exists>m tcs rs. tool_calls m = Some tcs \<and> tcs \<noteq> [] \<and> length rs = length tcs \<and>
        ms' = ms @ AssistantParam m # map2 ToolParam (map call_id tcs) rs"
    by blast
  with f e show ?thesis by simp
qed

lemma round_loop_unfold:
  "round_loop sv base model jid rounds ms w =
     (if rounds < MAX_TOOL_ROUNDS then
        (case round sv base model jid ms w of
           Return r w' \<Rightarrow> (r, w')
         | Continue ms' w' \<Rightarrow> round_loop sv base model jid (rounds + 1) ms' w')
      else (Inr ''Reached maximum tool call rounds. Please try a simpler request.'', w))"
  by (rule round_loop.simps)

declare round_loop.simps [simp del]

lemma round_loop_persists:
  "round_loop sv base model jid rounds ms w = (r, w') \<Longrightarrow>
     stdout w' = stdout w \<and> ipc_input w' = ipc_input w \<and>
     ((appended w' = appended w \<and> (tools_keep_history sv \<longrightarrow> history_file w' = history_file w)) \<or>
      (\<exists>m ts. r = Inr (cleaned m) \<and>
         appended w' = appended w @ [historyEntry ''assistant'' (cleaned m) ts] \<and>
         (tools_keep_history sv \<longrightarrow>
            history_file w' = log_after [historyEntry ''assistant'' (cleaned m) ts] (history_file w))))"
proof (induction sv base model jid rounds ms w rule: round_loop.induct)
  case (1 sv base model jid rounds ms w)
  show ?case
  proof (cases "rounds < MAX_TOOL_ROUNDS")
    case False
    with "1.prems" show ?thesis by (simp add: round_loop_unfold [of sv base model jid rounds])
  next
    case True
    show ?thesis
    proof (cases "round sv base model jid ms w")
      case (Return r1 w1)
      with True "1.prems" have "r1 = r" "w1 = w'"
        by (simp_all add: round_loop_unfold [of sv base model jid rounds])
      with round_Return [OF Return] show ?thesis by simp
    next
      case (Continue ms1 w1)
      with True "1.prems" have l: "round_loop sv base model jid (rounds + 1) ms1 w1 = (r, w')"
        by (simp add: round_loop_unfold [of sv base model jid rounds])
      note ih = "1.IH" [OF True Continue l]
      note c = round_Continue [OF Continue]
      from ih c show ?thesis by auto
    qed
  qed
qed

lemma always_Continue:
  assumes "always_tool_calls sv"
  shows "\<exists>ms' w'. round sv base model jid ms w = Continue ms' w'"
proof -
  let ?req = "\<lparr>req_baseURL = base, req_model = model, req_messages = ms\<rparr>"
  from assms obtain c x where c: "create sv ?req (ext w) = (Inr (Some c), x)"
    "tool_calls (choice_message c) \<noteq> None" "tool_calls (choice_message c) \<noteq> Some []"
    "finish_reason c \<noteq> ''stop''"
    unfolding always_tool_calls_def by blast
  then obtain tc tcs where t: "tool_calls (choice_message c) = Some (tc # tcs)"
    by (cases "tool_calls (choice_message c)") (auto simp: neq_Nil_conv)
  let ?w1 = "w\<lparr>requests := requests w @ [?req], ext := x\<rparr>"
  obtain ms2 w2 where "run_tool_calls sv jid (tc # tcs) (ms @ [AssistantParam (choice_message c)]) ?w1 = (ms2, w2)"
    by (cases "run_tool_calls sv jid (tc # tcs) (ms @ [AssistantParam (choice_message c)]) ?w1") auto
  with c t have "round sv base model jid ms w = Continue ms2 w2"
    by (simp add: round_def Let_def)
  then show ?thesis by blast
qed

lemma round_loop_cap:
  "always_tool_calls sv \<Longrightarrow> rounds \<le> MAX_TOOL_ROUNDS \<Longrightarrow>
   round_loop sv base model jid rounds ms w = (r, w') \<Longrightarrow>
     r = Inr cap_text \<and>
     length (requests w') = length (requests w) + (MAX_TOOL_ROUNDS - rounds) \<and>
     appended w' = appended w \<and>
     (tools_keep_history sv \<longrightarrow> history_file w' = history_file w)"
proof (induction sv base model jid rounds ms w rule: round_loop.induct)
  case (1 sv base model jid rounds ms w)
  show ?case
  proof (cases "rounds < MAX_TOOL_ROUNDS")
    case False
    with "1.prems"(3) have "(r, w') = (Inr cap_text, w)"
      using round_loop_unfold [of sv base model jid rounds ms w] by (simp add: cap_text_def)
    moreover from False "1.prems"(2) have "MAX_TOOL_ROUNDS - rounds = 0" by simp
    ultimately show ?thesis by simp
  next
    case True
    from always_Continue [OF "1.prems"(1)] obtain ms1 w1
      where Continue: "round sv base model jid ms w = Continue ms1 w1" by blast
    with True "1.prems" have l: "round_loop sv base model jid (rounds + 1) ms1 w1 = (r, w')"
      by (simp add: round_loop_unfold [of sv base model jid rounds])
    from True have le: "rounds + 1 \<le> MAX_TOOL_ROUNDS" by simp
    note ih = "1.IH" [OF True Continue "1.prems"(1) le l]
    note c = round_Continue [OF Continue]
    from ih c True show ?thesis by auto
  qed
qed

lemma runConversation_unfold:
  "runConversation sv base model systemPrompt userMessage jid w =
     (case build_messages sv systemPrompt (userEntry sv userMessage w) w of
        Inl err \<Rightarrow> (Inl err, appendHistory (userEntry sv userMessage w) w)
      | Inr ms \<Rightarrow> round_loop sv base model jid 0 ms (appendHistory (userEntry sv userMessage w) w))"
  unfolding runConversation_def userEntry_def Let_def by (rule refl)

text \<open>
  Claim C5. Where the first round is reached (the message sequence \<open>ms\<close> could be built
  from the stored history) and the completion service answers it with a choice that carries
  no tool calls, the engine returns the text of that message with the reasoning spans
  stripped, and the history file and the journal grow by exactly two records: the user
  message with the given text, then the assistant message with the cleaned text. One request
  is sent.
\<close>

theorem runConversation_final_spec:
  assumes "build_messages sv systemPrompt (userEntry sv userMessage w) w = Inr ms"
    and "create sv \<lparr>req_baseURL = base, req_model = model, req_messages = ms\<rparr> (ext w) = (Inr (Some c), x)"
    and "tool_calls (choice_message c) = None \<or> tool_calls (choice_message c) = Some []"
  shows "fst (runConversation sv base model systemPrompt userMessage jid w) =
       Inr (stripThinkTags (case content (choice_message c) of Some t \<Rightarrow> t | None \<Rightarrow> [])) \<and>
     appended (snd (runConversation sv base model systemPrompt userMessage jid w)) =
       appended w @
         [historyEntry ''user'' userMessage (toISOString sv (ext w)),
          historyEntry ''assistant''
            (stripThinkTags (case content (choice_message c) of Some t \<Rightarrow> t | None \<Rightarrow> []))
            (toISOString sv x)] \<and>
     history_file (snd (runConversation sv base model systemPrompt userMessage jid w)) =
       Some ((case history_file w of None \<Rightarrow> [] | Some t \<Rightarrow> t)
         @ stringify (historyEntry ''user'' userMessage (toISOString sv (ext w))) @ [newline]
         @ stringify (historyEntry ''assistant''
             (stripThinkTags (case content (choice_message c) of Some t \<Rightarrow> t | None \<Rightarrow> []))
             (toISOString sv x)) @ [newline]) \<and>
     requests (snd (runConversation sv base model systemPrompt userMessage jid w)) =
       requests w @ [\<lparr>req_baseURL = base, req_model = model, req_messages = ms\<rparr>]"
proof -
  let ?u = "userEntry sv userMessage w"
  let ?w0 = "appendHistory ?u w"
  let ?req = "\<lparr>req_baseURL = base, req_model = model, req_messages = ms\<rparr>"
  let ?w1 = "?w0\<lparr>requests := requests ?w0 @ [?req], ext := x\<rparr>"
  let ?a = "historyEntry ''assistant'' (cleaned (choice_message c)) (toISOString sv x)"
  have e: "ext ?w0 = ext w" by (simp add: appendHistory_simps)
  have r: "round sv base model jid ms ?w0 = Return (Inr (cleaned (choice_message c))) (appendHistory ?a ?w1)"
    using assms(2,3) by (auto simp: round_def Let_def e final_answer_eq)
  have l: "round_loop sv base model jid 0 ms ?w0 = (Inr (cleaned (choice_message c)), appendHistory ?a ?w1)"
    by (simp add: round_loop_unfold [of sv base model jid 0] r MAX_TOOL_ROUNDS_def)
  have run: "runConversation sv base model systemPrompt userMessage jid w =
      (Inr (cleaned (choice_message c)), appendHistory ?a ?w1)"
    by (simp add: runConversation_unfold assms(1) l)
  show ?thesis
    unfolding run
    by (simp add: appendHistory_simps cleaned_def userEntry_def log_after_def appendHistory_def)
qed

theorem runConversation_final_spec_witness:
  \<open>build_messages stub_service ''sys'' (userEntry stub_service ''hi'' (fresh_world 1)) (fresh_world 1) =
     Inr [Param (JObj [(''role'', JStr ''system''), (''content'', JStr ''sys'')]),
          Param (JObj [(''role'', JStr ''user''), (''content'', JStr ''hi'')])] \<and>
   create stub_service
     \<lparr>req_baseURL = ''b'', req_model = ''m'',
      req_messages = [Param (JObj [(''role'', JStr ''system''), (''content'', JStr ''sys'')]),
                      Param (JObj [(''role'', JStr ''user''), (''content'', JStr ''hi'')])]\<rparr>
     (ext (fresh_world 1)) = (Inr (Some final_choice), 2) \<and>
   tool_calls (choice_message final_choice) = None \<and>
   content (choice_message final_choice) = Some ''<think>scratch</think>hello'' \<and>
   fst (runConversation stub_service ''b'' ''m'' ''sys'' ''hi'' ''t@g.us'' (fresh_world 1)) = Inr ''hello'' \<and>
   history_file (snd (runConversation stub_service ''b'' ''m'' ''sys'' ''hi'' ''t@g.us'' (fresh_world 1))) =
     Some ''{"role":"user","content":"hi","timestamp":"2026-11-03T10:00:00.000Z"}\<newline>{"role":"assistant","content":"hello","timestamp":"2026-11-03T10:00:00.000Z"}\<newline>'' \<and>
   length (requests (snd (runConversation stub_service ''b'' ''m'' ''sys'' ''hi'' ''t@g.us'' (fresh_world 1)))) = 1\<close>
proof -
  let ?ms = "[Param (JObj [(''role'', JStr ''system''), (''content'', JStr ''sys'')]),
              Param (JObj [(''role'', JStr ''user''), (''content'', JStr ''hi'')])]"
  let ?run = "runConversation stub_service ''b'' ''m'' ''sys'' ''hi'' ''t@g.us'' (fresh_world 1)"
  have h1: "build_messages stub_service ''sys'' (userEntry stub_service ''hi'' (fresh_world 1)) (fresh_world 1) = Inr ?ms"
    by code_simp
  have h2: "create stub_service \<lparr>req_baseURL = ''b'', req_model = ''m'', req_messages = ?ms\<rparr>
      (ext (fresh_world 1)) = (Inr (Some final_choice), 2)"
    by (simp add: stub_service_def fresh_world_def)
  have h3: "tool_calls (choice_message final_choice) = None"
    by (simp add: final_choice_def)
  have h4: "content (choice_message final_choice) = Some ''<think>scratch</think>hello''"
    by (simp add: final_choice_def)
  note t = runConversation_final_spec [OF h1 h2 disjI1 [OF h3], of "''t@g.us''"]
  have c1: "stripThinkTags (case content (choice_message final_choice) of Some t \<Rightarrow> t | None \<Rightarrow> []) = ''hello''"
    by code_simp
  have c2: \<open>Some ((case history_file (fresh_world 1) of None \<Rightarrow> [] | Some t \<Rightarrow> t)
         @ stringify (historyEntry ''user'' ''hi'' (toISOString stub_service (ext (fresh_world 1)))) @ [newline]
         @ stringify (historyEntry ''assistant'' ''hello'' (toISOString stub_service 2)) @ [newline]) =
     Some ''{"role":"user","content":"hi","timestamp":"2026-11-03T10:00:00.000Z"}\<newline>{"role":"assistant","content":"hello","timestamp":"2026-11-03T10:00:00.000Z"}\<newline>''\<close>
    by code_simp
  from t have r1: "fst ?run = Inr ''hello''" by (simp only: c1)
  from t have r2: \<open>history_file (snd ?run) =
     Some ''{"role":"user","content":"hi","timestamp":"2026-11-03T10:00:00.000Z"}\<newline>{"role":"assistant","content":"hello","timestamp":"2026-11-03T10:00:00.000Z"}\<newline>''\<close>
    by (simp only: c1 c2)
  from t have r3: "length (requests (snd ?run)) = 1" by (simp add: fresh_world_def)
  from h1 h2 h3 h4 r1 r2 r3 show ?thesis by (intro conjI)
qed

text \<open>
  Claim C1. With a completion service that on every call returns a choice with at least one
  tool call and a finish reason other than \<open>stop\<close>, the engine sends exactly 15 requests and
  returns the cap-exceeded text; the one record handed to the history store in the turn is
  the user message, and, with a dispatcher that leaves the history file alone, the file has
  grown by that one line.
\<close>

theorem runConversation_cap_spec:
  assumes "always_tool_calls sv"
    and "build_messages sv systemPrompt (userEntry sv userMessage w) w = Inr ms"
  shows "fst (runConversation sv base model systemPrompt userMessage jid w) =
       Inr ''Reached maximum tool call rounds. Please try a simpler request.'' \<and>
     length (requests (snd (runConversation sv base model systemPrompt userMessage jid w))) =
       length (requests w) + 15 \<and>
     appended (snd (runConversation sv base model systemPrompt userMessage jid w)) =
       appended w @ [historyEntry ''user'' userMessage (toISOString sv (ext w))] \<and>
     (tools_keep_history sv \<longrightarrow>
        history_file (snd (runConversation sv base model systemPrompt userMessage jid w)) =
          Some ((case history_file w of None \<Rightarrow> [] | Some t \<Rightarrow> t)
            @ stringify (historyEntry ''user'' userMessage (toISOString sv (ext w))) @ [newline]))"
proof -
  let ?u = "userEntry sv userMessage w"
  let ?w0 = "appendHistory ?u w"
  obtain r w' where l: "round_loop sv base model jid 0 ms ?w0 = (r, w')"
    by (cases "round_loop sv base model jid 0 ms ?w0") auto
  have run: "runConversation sv base model systemPrompt userMessage jid w = (r, w')"
    by (simp add: runConversation_unfold assms(2) l)
  from round_loop_cap [OF assms(1) _ l]
  have "r = Inr cap_text" "length (requests w') = length (requests ?w0) + MAX_TOOL_ROUNDS"
    "appended w' = appended ?w0" "tools_keep_history sv \<longrightarrow> history_file w' = history_file ?w0"
    by simp_all
  then show ?thesis
    unfolding run
    by (simp add: appendHistory_simps cap_text_def MAX_TOOL_ROUNDS_def userEntry_def log_after_def)
qed

theorem runConversation_cap_spec_witness:
  \<open>always_tool_calls looping_service \<and>
   build_messages looping_service ''sys'' (userEntry looping_service ''hi'' (fresh_world 0)) (fresh_world 0) =
     Inr [Param (JObj [(''role'', JStr ''system''), (''content'', JStr ''sys'')]),
          Param (JObj [(''role'', JStr ''user''), (''content'', JStr ''hi'')])] \<and>
   tools_keep_history looping_service \<and>
   fst (runConversation looping_service ''b'' ''m'' ''sys'' ''hi'' ''t@g.us'' (fresh_world 0)) =
     Inr ''Reached maximum tool call rounds. Please try a simpler request.'' \<and>
   length (requests (snd (runConversation looping_service ''b'' ''m'' ''sys'' ''hi'' ''t@g.us'' (fresh_world 0)))) = 15 \<and>
   appended (snd (runConversation looping_service ''b'' ''m'' ''sys'' ''hi'' ''t@g.us'' (fresh_world 0))) =
     [historyEntry ''user'' ''hi'' ''2026-11-03T10:00:00.000Z''] \<and>
   history_file (snd (runConversation looping_service ''b'' ''m'' ''sys'' ''hi'' ''t@g.us'' (fresh_world 0))) =
     Some ''{"role":"user","content":"hi","timestamp":"2026-11-03T10:00:00.000Z"}\<newline>''\<close>
proof -
  let ?ms = "[Param (JObj [(''role'', JStr ''system''), (''content'', JStr ''sys'')]),
              Param (JObj [(''role'', JStr ''user''), (''content'', JStr ''hi'')])]"
  let ?run = "runConversation looping_service ''b'' ''m'' ''sys'' ''hi'' ''t@g.us'' (fresh_world 0)"
  have h1: "always_tool_calls looping_service"
    by (simp add: always_tool_calls_def looping_service_def stub_service_def tool_choice_def)
  have h2: "build_messages looping_service ''sys'' (userEntry looping_service ''hi'' (fresh_world 0)) (fresh_world 0) = Inr ?ms"
    by code_simp
  have h3: "tools_keep_history looping_service"
    by (simp add: tools_keep_history_def looping_service_def stub_service_def)
  note t = runConversation_cap_spec [OF h1 h2, of "''b''" "''m''" "''t@g.us''"]
  have c2: "appended (fresh_world 0) @ [historyEntry ''user'' ''hi'' (toISOString looping_service (ext (fresh_world 0)))]
      = [historyEntry ''user'' ''hi'' ''2026-11-03T10:00:00.000Z'']"
    by (simp add: fresh_world_def looping_service_def stub_service_def)
  have c3: \<open>Some ((case history_file (fresh_world 0) of None \<Rightarrow> [] | Some t \<Rightarrow> t)
            @ stringify (historyEntry ''user'' ''hi'' (toISOString looping_service (ext (fresh_world 0)))) @ [newline])
      = Some ''{"role":"user","content":"hi","timestamp":"2026-11-03T10:00:00.000Z"}\<newline>''\<close>
    by code_simp
  from t have r1: "fst ?run = Inr ''Reached maximum tool call rounds. Please try a simpler request.''"
    by (rule conjunct1)
  from t have r2: "length (requests (snd ?run)) = 15" by (simp add: fresh_world_def)
  from t have r3: "appended (snd ?run) = [historyEntry ''user'' ''hi'' ''2026-11-03T10:00:00.000Z'']"
    by (simp only: c2)
  from t h3 have r4: \<open>history_file (snd ?run) =
      Some ''{"role":"user","content":"hi","timestamp":"2026-11-03T10:00:00.000Z"}\<newline>''\<close>
    by (simp only: c3)
  from h1 h2 h3 r1 r2 r3 r4 show ?thesis by (intro conjI)
qed

text \<open>
  Claim C9. In every turn the records handed to the history store are the user message
  alone, or the user message followed by one assistant message with the cleaned text the
  turn returns; each has the role \<open>user\<close> or \<open>assistant\<close> and neither tool calls nor a tool
  call identifier. With a dispatcher that leaves the history file alone, the file has grown
  by exactly these lines. A round that goes on to the next one hands nothing to the store:
  its assistant message with the tool calls and one tool message per call are added to the
  working sequence only.
\<close>

theorem runConversation_persists:
  "(\<exists>recs. appended (snd (runConversation sv base model systemPrompt userMessage jid w)) = appended w @ recs \<and>
      (tools_keep_history sv \<longrightarrow>
         history_file (snd (runConversation sv base model systemPrompt userMessage jid w)) =
           log_after recs (history_file w)) \<and>
      (recs = [historyEntry ''user'' userMessage (toISOString sv (ext w))] \<or>
       (\<exists>(m::assistant_message) ts. fst (runConversation sv base model systemPrompt userMessage jid w) =
                  Inr (stripThinkTags (case content m of Some t \<Rightarrow> t | None \<Rightarrow> [])) \<and>
          recs = [historyEntry ''user'' userMessage (toISOString sv (ext w)),
                  historyEntry ''assistant''
                    (stripThinkTags (case content m of Some t \<Rightarrow> t | None \<Rightarrow> [])) ts])) \<and>
      (\<forall>r\<in>set recs.
         (get_prop r ''role'' = Some (JStr ''user'') \<or> get_prop r ''role'' = Some (JStr ''assistant'')) \<and>
         get_prop r ''tool_calls'' = None \<and> get_prop r ''tool_call_id'' = None)) \<and>
   (round sv base model jid ms w0 = Continue ms' w1 \<longrightarrow>
      appended w1 = appended w0 \<and>
      (tools_keep_history sv \<longrightarrow> history_file w1 = history_file w0) \<and>
      (\<exists>m tcs rs. tool_calls m = Some tcs \<and> tcs \<noteq> [] \<and> length rs = length tcs \<and>
         ms' = ms @ AssistantParam m # map2 ToolParam (map call_id tcs) rs))"
proof (intro conjI impI)
  let ?u = "userEntry sv userMessage w"
  let ?w0 = "appendHistory ?u w"
  let ?run = "runConversation sv base model systemPrompt userMessage jid w"
  have roles: "\<And>role t ts. get_prop (historyEntry role t ts) ''role'' = Some (JStr role) \<and>
      get_prop (historyEntry role t ts) ''tool_calls'' = None \<and>
      get_prop (historyEntry role t ts) ''tool_call_id'' = None"
    by (simp add: historyEntry_def get_prop_def)
  have cases: "(appended (snd ?run) = appended ?w0 \<and>
        (tools_keep_history sv \<longrightarrow> history_file (snd ?run) = history_file ?w0)) \<or>
      (\<exists>m ts. fst ?run = Inr (cleaned m) \<and>
         appended (snd ?run) = appended ?w0 @ [historyEntry ''assistant'' (cleaned m) ts] \<and>
         (tools_keep_history sv \<longrightarrow>
            history_file (snd ?run) = log_after [historyEntry ''assistant'' (cleaned m) ts] (history_file ?w0)))"
  proof (cases "build_messages sv systemPrompt ?u w")
    case (Inl err)
    then show ?thesis by (simp add: runConversation_unfold)
  next
    case (Inr ms)
    obtain r w' where l: "round_loop sv base model jid 0 ms ?w0 = (r, w')"
      by (cases "round_loop sv base model jid 0 ms ?w0") auto
    have run: "?run = (r, w')" by (simp add: runConversation_unfold Inr l)
    from round_loop_persists [OF l] show ?thesis unfolding run by auto
  qed
  from cases show "\<exists>recs. appended (snd ?run) = appended w @ recs \<and>
      (tools_keep_history sv \<longrightarrow> history_file (snd ?run) = log_after recs (history_file w)) \<and>
      (recs = [historyEntry ''user'' userMessage (toISOString sv (ext w))] \<or>
       (\<exists>(m::assistant_message) ts. fst ?run = Inr (stripThinkTags (case content m of Some t \<Rightarrow> t | None \<Rightarrow> [])) \<and>
          recs = [historyEntry ''user'' userMessage (toISOString sv (ext w)),
                  historyEntry ''assistant''
                    (stripThinkTags (case content m of Some t \<Rightarrow> t | None \<Rightarrow> [])) ts])) \<and>
      (\<forall>r\<in>set recs.
         (get_prop r ''role'' = Some (JStr ''user'') \<or> get_prop r ''role'' = Some (JStr ''assistant'')) \<and>
         get_prop r ''tool_calls'' = None \<and> get_prop r ''tool_call_id'' = None)"
  proof
    assume a: "appended (snd ?run) = appended ?w0 \<and>
        (tools_keep_history sv \<longrightarrow> history_file (snd ?run) = history_file ?w0)"
    show ?thesis
      apply (rule exI [of _ "[?u]"])
      using a roles by (simp add: appendHistory_simps userEntry_def)
  next
    assume "\<exists>m ts. fst ?run = Inr (cleaned m) \<and>
         appended (snd ?run) = appended ?w0 @ [historyEntry ''assistant'' (cleaned m) ts] \<and>
         (tools_keep_history sv \<longrightarrow>
            history_file (snd ?run) = log_after [historyEntry ''assistant'' (cleaned m) ts] (history_file ?w0))"
    then obtain m ts where b: "fst ?run = Inr (cleaned m)"
      "appended (snd ?run) = appended ?w0 @ [historyEntry ''assistant'' (cleaned m) ts]"
      "tools_keep_history sv \<longrightarrow>
            history_file (snd ?run) = log_after [historyEntry ''assistant'' (cleaned m) ts] (history_file ?w0)"
      by blast
    have "fst ?run = Inr (stripThinkTags (case content m of Some t \<Rightarrow> t | None \<Rightarrow> [])) \<and>
          [?u, historyEntry ''assistant'' (cleaned m) ts] = [historyEntry ''user'' userMessage (toISOString sv (ext w)),
                  historyEntry ''assistant''
                    (stripThinkTags (case content m of Some t \<Rightarrow> t | None \<Rightarrow> [])) ts]"
      using b(1) by (simp add: cleaned_def userEntry_def)
    then have ex: "\<exists>(m'::assistant_message) ts'. fst ?run = Inr (stripThinkTags (case content m' of Some t \<Rightarrow> t | None \<Rightarrow> [])) \<and>
          [?u, historyEntry ''assistant'' (cleaned m) ts] = [historyEntry ''user'' userMessage (toISOString sv (ext w)),
                  historyEntry ''assistant''
                    (stripThinkTags (case content m' of Some t \<Rightarrow> t | None \<Rightarrow> [])) ts']"
      by blast
    show ?thesis
      apply (rule exI [of _ "[?u, historyEntry ''assistant'' (cleaned m) ts]"])
      using b(2,3) roles ex
      by (simp add: appendHistory_simps log_after_two userEntry_def)
  qed
next
  assume c: "round sv base model jid ms w0 = Continue ms' w1"
  from round_Continue [OF c] show "appended w1 = appended w0" by simp
next
  assume c: "round sv base model jid ms w0 = Continue ms' w1" and "tools_keep_history sv"
  with round_Continue [OF c] show "history_file w1 = history_file w0" by simp
next
  assume c: "round sv base model jid ms w0 = Continue ms' w1"
  from round_Continue [OF c] show "\<exists>m tcs rs. tool_calls m = Some tcs \<and> tcs \<noteq> [] \<and> length rs = length tcs \<and>
         ms' = ms @ AssistantParam m # map2 ToolParam (map call_id tcs) rs" by simp
qed

theorem runConversation_persists_witness:
  \<open>tools_keep_history stub_service \<and>
   fst (runConversation stub_service ''b'' ''m'' ''sys'' ''hi'' ''t@g.us'' (fresh_world 0)) = Inr ''hello'' \<and>
   appended (snd (runConversation stub_service ''b'' ''m'' ''sys'' ''hi'' ''t@g.us'' (fresh_world 0))) =
     [historyEntry ''user'' ''hi'' ''2026-11-03T10:00:00.000Z'',
      historyEntry ''assistant'' ''hello'' ''2026-11-03T10:00:00.000Z''] \<and>
   history_file (snd (runConversation stub_service ''b'' ''m'' ''sys'' ''hi'' ''t@g.us'' (fresh_world 0))) =
     Some ''{"role":"user","content":"hi","timestamp":"2026-11-03T10:00:00.000Z"}\<newline>{"role":"assistant","content":"hello","timestamp":"2026-11-03T10:00:00.000Z"}\<newline>'' \<and>
   list_all (\<lambda>r. get_prop r ''role'' \<noteq> Some (JStr ''tool'') \<and> get_prop r ''tool_calls'' = None)
     (appended (snd (runConversation stub_service ''b'' ''m'' ''sys'' ''hi'' ''t@g.us'' (fresh_world 0)))) \<and>
   round stub_service ''b'' ''m'' ''t@g.us'' [Param (JStr ''p'')] (fresh_world 0) =
     Continue [Param (JStr ''p''), AssistantParam (choice_message tool_choice),
               ToolParam ''call_1'' ''(empty directory)'']
       ((fresh_world 1)\<lparr>requests := [\<lparr>req_baseURL = ''b'', req_model = ''m'',
                                         req_messages = [Param (JStr ''p'')]\<rparr>]\<rparr>) \<and>
   appended ((fresh_world 1)\<lparr>requests := [\<lparr>req_baseURL = ''b'', req_model = ''m'',
                                         req_messages = [Param (JStr ''p'')]\<rparr>]\<rparr>) = []\<close>
proof -
  let ?run = "runConversation stub_service ''b'' ''m'' ''sys'' ''hi'' ''t@g.us'' (fresh_world 0)"
  let ?u = "historyEntry ''user'' ''hi'' ''2026-11-03T10:00:00.000Z''"
  let ?a = "historyEntry ''assistant'' ''hello'' ''2026-11-03T10:00:00.000Z''"
  let ?w1 = "(fresh_world 1)\<lparr>requests := [\<lparr>req_baseURL = ''b'', req_model = ''m'',
                                         req_messages = [Param (JStr ''p'')]\<rparr>]\<rparr>"
  let ?ms1 = "[Param (JStr ''p''), AssistantParam (choice_message tool_choice),
               ToolParam ''call_1'' ''(empty directory)'']"
  have k: "tools_keep_history stub_service"
    by (simp add: tools_keep_history_def stub_service_def)
  have e1: "fst ?run = Inr ''hello''" by code_simp
  have e2: "appended (snd ?run) = [?u, ?a]" by code_simp
  have c: "round stub_service ''b'' ''m'' ''t@g.us'' [Param (JStr ''p'')] (fresh_world 0) = Continue ?ms1 ?w1"
    by code_simp
  note t = runConversation_persists [of stub_service "''b''" "''m''" "''sys''" "''hi''" "''t@g.us''"
      "fresh_world 0" "[Param (JStr ''p'')]" "fresh_world 0" ?ms1 ?w1]
  from t obtain recs where r: "appended (snd ?run) = appended (fresh_world 0) @ recs"
    "tools_keep_history stub_service \<longrightarrow> history_file (snd ?run) = log_after recs (history_file (fresh_world 0))"
    "\<forall>r\<in>set recs.
         (get_prop r ''role'' = Some (JStr ''user'') \<or> get_prop r ''role'' = Some (JStr ''assistant'')) \<and>
         get_prop r ''tool_calls'' = None \<and> get_prop r ''tool_call_id'' = None"
    by blast
  from r(1) e2 have recs: "recs = [?u, ?a]" by (simp add: fresh_world_def)
  have l: \<open>log_after [?u, ?a] (history_file (fresh_world 0)) =
     Some ''{"role":"user","content":"hi","timestamp":"2026-11-03T10:00:00.000Z"}\<newline>{"role":"assistant","content":"hello","timestamp":"2026-11-03T10:00:00.000Z"}\<newline>''\<close>
    by code_simp
  from r(2) k recs l have f: \<open>history_file (snd ?run) =
     Some ''{"role":"user","content":"hi","timestamp":"2026-11-03T10:00:00.000Z"}\<newline>{"role":"assistant","content":"hello","timestamp":"2026-11-03T10:00:00.000Z"}\<newline>''\<close>
    by simp
  from r(3) recs e2
  have g: "list_all (\<lambda>r. get_prop r ''role'' \<noteq> Some (JStr ''tool'') \<and> get_prop r ''tool_calls'' = None)
     (appended (snd ?run))"
    by auto
  from t c have h: "appended ?w1 = appended (fresh_world 0)" by blast
  then have h': "appended ?w1 = []" by (simp add: fresh_world_def)
  from k e1 e2 f g c h' show ?thesis by (intro conjI)
qed

section \<open>Session controller (index.ts)\<close>

text \<open>
  The polling loop and the loop of turns may run forever; both take fuel, one unit for each
  sleep and each turn, and what has happened when the fuel ends is returned with the exit
  state \<open>Running\<close>. The host acts on the mailbox while the program is suspended: once during
  a turn, and once in every sleep. The first check of \<^verbatim>\<open>waitForIpcMessage\<close> runs inside the
  promise and a throw there rejects it (\<open>Rejected\<close>); a later one runs in a timer, where a
  throw ends the process (\<open>Crashed\<close>), as does one while the first prompt is put together.
  \<^verbatim>\<open>/tmp/input.json\<close> is outside the state, so its removal has no counterpart.
\<close>

datatype exit = Exit nat | Uncaught string | Running

datatype wait_result = Closed | Message string | Rejected string | Crashed string | Pending

definition cannot_convert :: string where
  "cannot_convert = ''Cannot convert object to primitive value''"

definition check_once :: "'x services \<Rightarrow> bool \<Rightarrow> 'x world \<Rightarrow> wait_result option \<times> 'x world" where
  "check_once sv first w =
     (case shouldClose w of
        (True, w1) \<Rightarrow> (Some Closed, w1)
      | (False, w1) \<Rightarrow>
          (case drainIpcInput (JSON_parse sv) w1 of
             (msgs, w2) \<Rightarrow>
               if msgs \<noteq> [] then
                 (case join_values [newline] msgs of
                    Some joined \<Rightarrow> (Some (Message joined), w2)
                  | None \<Rightarrow> (Some ((if first then Rejected else Crashed) cannot_convert), w2))
               else (None, w2)))"

definition sleep :: "'x services \<Rightarrow> 'x world \<Rightarrow> 'x world" where
  "sleep sv w = (case host sv (ipc_input w) (ext w) of (dir, x) \<Rightarrow> w\<lparr>ipc_input := dir, ext := x\<rparr>)"

fun waitForIpcMessage :: "'x services \<Rightarrow> nat \<Rightarrow> bool \<Rightarrow> 'x world \<Rightarrow> wait_result \<times> 'x world" where
  "waitForIpcMessage sv 0 first w =
     (case check_once sv first w of
        (Some r, w') \<Rightarrow> (r, w')
      | (None, w') \<Rightarrow> (Pending, w'))"
| "waitForIpcMessage sv (Suc fuel) first w =
     (case check_once sv first w of
        (Some r, w') \<Rightarrow> (r, w')
      | (None, w') \<Rightarrow> waitForIpcMessage sv fuel False (sleep sv w'))"

datatype 'x turn_result = Done exit "'x world" | Next string "'x world"

definition turn ::
  "'x services \<Rightarrow> string \<Rightarrow> string \<Rightarrow> string \<Rightarrow> string \<Rightarrow> string \<Rightarrow> nat \<Rightarrow> string \<Rightarrow> 'x world
     \<Rightarrow> 'x turn_result" where
  "turn sv base model systemPrompt jid sid fuel currentPrompt w =
     (case runConversation sv base model systemPrompt currentPrompt jid w of
        (Inl errorMessage, w1) \<Rightarrow>
          Done (Exit 1)
            (writeOutput \<lparr>status = Error, result = None, newSessionId = Some sid,
                          error = Some errorMessage\<rparr> w1)
      | (Inr response, w1) \<Rightarrow>
          (let w2 = writeOutput \<lparr>status = Success,
                                 result = (if response = [] then None else Some response),
                                 newSessionId = Some sid, error = None\<rparr> w1
           in case shouldClose (sleep sv w2) of
                (True, w3) \<Rightarrow> Done (Exit 0) w3
              | (False, w3) \<Rightarrow>
                  (let w4 = writeOutput \<lparr>status = Success, result = None,
                                         newSessionId = Some sid, error = None\<rparr> w3
                   in case waitForIpcMessage sv fuel True w4 of
                        (Closed, w5) \<Rightarrow> Done (Exit 0) w5
                      | (Message nextMessage, w5) \<Rightarrow> Next nextMessage w5
                      | (Rejected errorMessage, w5) \<Rightarrow>
                          Done (Exit 1)
                            (writeOutput \<lparr>status = Error, result = None, newSessionId = Some sid,
                                          error = Some errorMessage\<rparr> w5)
                      | (Crashed errorMessage, w5) \<Rightarrow> Done (Uncaught errorMessage) w5
                      | (Pending, w5) \<Rightarrow> Done Running w5)))"

fun main_loop ::
  "'x services \<Rightarrow> string \<Rightarrow> string \<Rightarrow> string \<Rightarrow> string \<Rightarrow> string \<Rightarrow> nat \<Rightarrow> string \<Rightarrow> 'x world
     \<Rightarrow> exit \<times> 'x world" where
  "main_loop sv base model systemPrompt jid sid 0 currentPrompt w = (Running, w)"
| "main_loop sv base model systemPrompt jid sid (Suc fuel) currentPrompt w =
     (case turn sv base model systemPrompt jid sid fuel currentPrompt w of
        Done e w' \<Rightarrow> (e, w')
      | Next nextMessage w' \<Rightarrow> main_loop sv base model systemPrompt jid sid fuel nextMessage w')"

definition digit_char :: "nat \<Rightarrow> char" where
  "digit_char n = char_of (48 + n mod 10)"

fun dec :: "nat \<Rightarrow> string" where
  "dec n = (if n < 10 then [digit_char n] else dec (n div 10) @ [digit_char n])"

declare dec.simps [simp del]

definition secret_or :: "(string \<times> string) list \<Rightarrow> string \<Rightarrow> string \<Rightarrow> string" where
  "secret_or secs k dflt =
     (case map_of secs k of None \<Rightarrow> dflt | Some v \<Rightarrow> if v = [] then dflt else v)"

definition new_session_id :: "'x services \<Rightarrow> 'x world \<Rightarrow> string" where
  "new_session_id sv w = ''betty-'' @ dec (Date_now sv (ext w))"

definition main :: "'x services \<Rightarrow> string \<Rightarrow> nat \<Rightarrow> 'x world \<Rightarrow> exit \<times> 'x world" where
  "main sv stdinData fuel w =
     (case parse_input sv stdinData of
        Inl err \<Rightarrow>
          (Exit 1,
           writeOutput \<lparr>status = Error, result = None, newSessionId = None,
                         error = Some (''Failed to parse input: '' @ err)\<rparr> w)
      | Inr containerInput \<Rightarrow>
          (let secs = (case secrets containerInput of None \<Rightarrow> [] | Some s \<Rightarrow> s);
               apiBase = secret_or secs ''QWEN_API_BASE'' ''http://192.168.65.1:11434/v1'';
               model = secret_or secs ''QWEN_MODEL'' ''qwen3.5'';
               sid = new_session_id sv w;
               systemPrompt = loadSystemPrompt sv (assistantName containerInput) (ext w);
               w1 = w\<lparr>ipc_input := try_unlink IPC_INPUT_CLOSE_SENTINEL (ipc_input w)\<rparr>
           in case drainIpcInput (JSON_parse sv) w1 of
                (pending, w2) \<Rightarrow>
                  if pending = [] then
                    main_loop sv apiBase model systemPrompt (chatJid containerInput) sid fuel
                      (prompt containerInput) w2
                  else
                    (case join_values [newline] pending of
                       None \<Rightarrow> (Uncaught cannot_convert, w2)
                     | Some joined \<Rightarrow>
                         main_loop sv apiBase model systemPrompt (chatJid containerInput) sid fuel
                           (prompt containerInput @ [newline] @ joined) w2)))"

definition session_frames :: "string \<Rightarrow> 'x world \<Rightarrow> 'x world \<Rightarrow> bool" where
  "session_frames sid w w' \<longleftrightarrow>
     (\<exists>outs. stdout w' = stdout w @ concat (map frame outs) \<and>
        (\<forall>out\<in>set outs. newSessionId out = Some sid))"

definition session_token :: "string \<Rightarrow> string" where
  "session_token sid = quote ''newSessionId'' @ '':'' @ quote sid"

subsection \<open>Frames of a session\<close>

lemma session_frames_refl: "stdout w' = stdout w \<Longrightarrow> session_frames sid w w'"
  unfolding session_frames_def by (rule exI [of _ "[]"]) simp

lemma session_frames_trans:
  assumes "session_frames sid w w1" "session_frames sid w1 w2"
  shows "session_frames sid w w2"
proof -
  from assms(1) obtain a where a: "stdout w1 = stdout w @ concat (map frame a)"
    "\<forall>out\<in>set a. newSessionId out = Some sid" unfolding session_frames_def by blast
  from assms(2) obtain b where b: "stdout w2 = stdout w1 @ concat (map frame b)"
    "\<forall>out\<in>set b. newSessionId out = Some sid" unfolding session_frames_def by blast
  from a b have "stdout w2 = stdout w @ concat (map frame (a @ b)) \<and>
      (\<forall>out\<in>set (a @ b). newSessionId out = Some sid)" by auto
  then show ?thesis unfolding session_frames_def by blast
qed

lemma writeOutput_frame: "writeOutput out w = w\<lparr>stdout := stdout w @ frame out\<rparr>"
  by (simp add: writeOutput_def console_log_def frame_def)

lemma session_frames_write:
  assumes "newSessionId out = Some sid" "session_frames sid w w1"
  shows "session_frames sid w (writeOutput out w1)"
proof -
  have "stdout (writeOutput out w1) = stdout w1 @ concat (map frame [out]) \<and>
      (\<forall>y\<in>set [out]. newSessionId y = Some sid)"
    using assms(1) by (simp add: writeOutput_frame)
  then have f: "session_frames sid w1 (writeOutput out w1)"
    unfolding session_frames_def by blast
  from assms(2) f show ?thesis by (rule session_frames_trans)
qed

lemma stdout_runConversation:
  "stdout (snd (runConversation sv base model systemPrompt userMessage jid w)) = stdout w"
proof (cases "build_messages sv systemPrompt (userEntry sv userMessage w) w")
  case (Inl err)
  then show ?thesis by (simp add: runConversation_unfold appendHistory_simps)
next
  case (Inr ms)
  let ?w0 = "appendHistory (userEntry sv userMessage w) w"
  obtain r w' where l: "round_loop sv base model jid 0 ms ?w0 = (r, w')"
    by (cases "round_loop sv base model jid 0 ms ?w0") auto
  from round_loop_persists [OF l] have "stdout w' = stdout ?w0" by simp
  with Inr l show ?thesis by (simp add: runConversation_unfold appendHistory_simps)
qed

lemma stdout_shouldClose: "stdout (snd (shouldClose w)) = stdout w"
  by (simp add: shouldClose_def)

lemma stdout_drain: "stdout (snd (drainIpcInput parse w)) = stdout w"
  by (simp add: drain_snd)

lemma stdout_sleep: "stdout (sleep sv w) = stdout w"
  by (simp add: sleep_def split: prod.splits)

lemma stdout_check_once: "stdout (snd (check_once sv first w)) = stdout w"
proof -
  obtain c w1 where s: "shouldClose w = (c, w1)" by (cases "shouldClose w") auto
  then have s1: "stdout w1 = stdout w" using stdout_shouldClose [of w] by simp
  obtain msgs w2 where d: "drainIpcInput (JSON_parse sv) w1 = (msgs, w2)"
    by (cases "drainIpcInput (JSON_parse sv) w1") auto
  then have d1: "stdout w2 = stdout w1" using stdout_drain [of "JSON_parse sv" w1] by simp
  from s d s1 d1 show ?thesis
    by (cases c) (auto simp: check_once_def split: option.splits)
qed

lemma stdout_wait: "stdout (snd (waitForIpcMessage sv fuel first w)) = stdout w"
proof (induction fuel arbitrary: first w)
  case 0
  obtain r w' where c: "check_once sv first w = (r, w')" by (cases "check_once sv first w") auto
  with stdout_check_once [of sv first w] show ?case by (cases r) auto
next
  case (Suc fuel)
  obtain r w' where c: "check_once sv first w = (r, w')" by (cases "check_once sv first w") auto
  with stdout_check_once [of sv first w] have "stdout w' = stdout w" by simp
  with c Suc.IH [of False "sleep sv w'"] show ?case by (cases r) (auto simp: stdout_sleep)
qed

lemma turn_frames:
  assumes t: "turn sv base model systemPrompt jid sid fuel p w = Done e w' \<or>
   turn sv base model systemPrompt jid sid fuel p w = Next q w'"
  shows "session_frames sid w w'"
proof -
  obtain r w1 where rc: "runConversation sv base model systemPrompt p jid w = (r, w1)"
    by (cases "runConversation sv base model systemPrompt p jid w") auto
  with stdout_runConversation [of sv base model systemPrompt p jid w]
  have f1: "session_frames sid w w1" by (simp add: session_frames_refl)
  show ?thesis
  proof (cases r)
    case (Inl err)
    with t rc have "w' = writeOutput \<lparr>status = Error, result = None, newSessionId = Some sid,
                          error = Some err\<rparr> w1"
      by (auto simp: turn_def)
    with f1 show ?thesis by (simp add: session_frames_write)
  next
    case (Inr response)
    let ?w2 = "writeOutput \<lparr>status = Success, result = (if response = [] then None else Some response),
                                 newSessionId = Some sid, error = None\<rparr> w1"
    have f2: "session_frames sid w ?w2" using f1 by (simp add: session_frames_write)
    obtain c w3 where sc: "shouldClose (sleep sv ?w2) = (c, w3)"
      by (cases "shouldClose (sleep sv ?w2)") auto
    with stdout_shouldClose [of "sleep sv ?w2"] have "stdout w3 = stdout ?w2"
      by (simp add: stdout_sleep)
    then have "session_frames sid ?w2 w3" by (rule session_frames_refl)
    with f2 have f3: "session_frames sid w w3" by (rule session_frames_trans)
    show ?thesis
    proof (cases c)
      case True
      with t rc Inr sc have "w' = w3" by (auto simp: turn_def Let_def)
      with f3 show ?thesis by simp
    next
      case False
      let ?w4 = "writeOutput \<lparr>status = Success, result = None, newSessionId = Some sid, error = None\<rparr> w3"
      have f4: "session_frames sid w ?w4" using f3 by (simp add: session_frames_write)
      obtain wr w5 where wt: "waitForIpcMessage sv fuel True ?w4 = (wr, w5)"
        by (cases "waitForIpcMessage sv fuel True ?w4") auto
      with stdout_wait [of sv fuel True ?w4] have "stdout w5 = stdout ?w4" by simp
      then have "session_frames sid ?w4 w5" by (rule session_frames_refl)
      with f4 have f5: "session_frames sid w w5" by (rule session_frames_trans)
      from t rc Inr sc False wt f5 show ?thesis
        by (cases wr) (auto simp: turn_def Let_def session_frames_write)
    qed
  qed
qed

lemma main_loop_frames:
  "session_frames sid w (snd (main_loop sv base model systemPrompt jid sid fuel p w))"
proof (induction fuel arbitrary: p w)
  case 0
  show ?case by (simp add: session_frames_refl)
next
  case (Suc fuel)
  show ?case
  proof (cases "turn sv base model systemPrompt jid sid fuel p w")
    case (Done e w')
    have "session_frames sid w w'" by (rule turn_frames [OF disjI1 [OF Done]])
    with Done show ?thesis by simp
  next
    case (Next q w')
    have a: "session_frames sid w w'" by (rule turn_frames [OF disjI2 [OF Next]])
    have b: "session_frames sid w' (snd (main_loop sv base model systemPrompt jid sid fuel q w'))"
      by (rule Suc.IH)
    from a b have "session_frames sid w (snd (main_loop sv base model systemPrompt jid sid fuel q w'))"
      by (rule session_frames_trans)
    with Next show ?thesis by simp
  qed
qed

lemma token_in_frame:
  assumes "newSessionId out = Some sid"
  shows "sublist (session_token sid) (stringify (output_json out))"
proof -
  let ?s = "quote ''status'' @ '':'' @ stringify (JStr (case status out of Success \<Rightarrow> ''success'' | Error \<Rightarrow> ''error''))"
  let ?r = "quote ''result'' @ '':'' @ stringify (case result out of None \<Rightarrow> JNull | Some r \<Rightarrow> JStr r)"
  show ?thesis
  proof (cases "error out")
    case None
    with assms have "stringify (output_json out) = (''{'' @ ?s @ '','' @ ?r @ '','') @ session_token sid @ ''}''"
      by (simp add: output_json_def session_token_def)
    then show ?thesis unfolding sublist_def by blast
  next
    case (Some e)
    with assms have "stringify (output_json out) =
        (''{'' @ ?s @ '','' @ ?r @ '','') @ session_token sid @ ('','' @ quote ''error'' @ '':'' @ quote e @ ''}'')"
      by (simp add: output_json_def session_token_def)
    then show ?thesis unfolding sublist_def by blast
  qed
qed

text \<open>
  Claim C3, as the code has it. Once the initial input is parsed, everything written to
  standard output, however long the session runs, is a sequence of frames whose records
  carry the sessionId made at session start, and the serialized record holds that token.
  The frame of a startup failure is written before any sessionId is made and carries none.
\<close>

theorem main_frames:
  "(parse_input sv stdinData = Inr containerInput \<longrightarrow>
      (\<exists>outs. stdout (snd (main sv stdinData fuel w)) = stdout w @ concat (map frame outs) \<and>
         (\<forall>out\<in>set outs. newSessionId out = Some (new_session_id sv w) \<and>
            sublist (session_token (new_session_id sv w)) (stringify (output_json out))))) \<and>
   (parse_input sv stdinData = Inl err \<longrightarrow>
      main sv stdinData fuel w =
        (Exit 1, w\<lparr>stdout := stdout w @ frame \<lparr>status = Error, result = None, newSessionId = None,
                           error = Some (''Failed to parse input: '' @ err)\<rparr>\<rparr>))"
proof (intro conjI impI)
  assume p: "parse_input sv stdinData = Inr containerInput"
  let ?sid = "new_session_id sv w"
  let ?secs = "case secrets containerInput of None \<Rightarrow> [] | Some s \<Rightarrow> s"
  let ?b = "secret_or ?secs ''QWEN_API_BASE'' ''http://192.168.65.1:11434/v1''"
  let ?m = "secret_or ?secs ''QWEN_MODEL'' ''qwen3.5''"
  let ?sp = "loadSystemPrompt sv (assistantName containerInput) (ext w)"
  let ?w1 = "w\<lparr>ipc_input := try_unlink IPC_INPUT_CLOSE_SENTINEL (ipc_input w)\<rparr>"
  obtain pending w2 where d: "drainIpcInput (JSON_parse sv) ?w1 = (pending, w2)"
    by (cases "drainIpcInput (JSON_parse sv) ?w1") auto
  with stdout_drain [of "JSON_parse sv" ?w1] have s2: "stdout w2 = stdout w" by simp
  have "session_frames ?sid w (snd (main sv stdinData fuel w))"
  proof (cases "pending = []")
    case True
    with p d have "main sv stdinData fuel w =
        main_loop sv ?b ?m ?sp (chatJid containerInput) ?sid fuel (prompt containerInput) w2"
      by (simp add: main_def Let_def)
    with main_loop_frames [of ?sid w2 sv ?b ?m ?sp "chatJid containerInput" fuel "prompt containerInput"] s2
    show ?thesis by (simp add: session_frames_def)
  next
    case False
    show ?thesis
    proof (cases "join_values [newline] pending")
      case None
      with p d False have "snd (main sv stdinData fuel w) = w2" by (simp add: main_def Let_def)
      with s2 show ?thesis by (simp add: session_frames_refl)
    next
      case (Some joined)
      with p d False have "main sv stdinData fuel w =
          main_loop sv ?b ?m ?sp (chatJid containerInput) ?sid fuel
            (prompt containerInput @ [newline] @ joined) w2"
        by (simp add: main_def Let_def)
      with main_loop_frames [of ?sid w2 sv ?b ?m ?sp "chatJid containerInput" fuel
          "prompt containerInput @ [newline] @ joined"] s2
      show ?thesis by (simp add: session_frames_def)
    qed
  qed
  then obtain outs where o: "stdout (snd (main sv stdinData fuel w)) = stdout w @ concat (map frame outs)"
    "\<forall>out\<in>set outs. newSessionId out = Some ?sid"
    unfolding session_frames_def by blast
  from o(2) have "\<forall>out\<in>set outs. newSessionId out = Some ?sid \<and>
      sublist (session_token ?sid) (stringify (output_json out))"
    by (simp add: token_in_frame)
  with o(1) show "\<exists>outs. stdout (snd (main sv stdinData fuel w)) = stdout w @ concat (map frame outs) \<and>
         (\<forall>out\<in>set outs. newSessionId out = Some ?sid \<and>
            sublist (session_token ?sid) (stringify (output_json out)))"
    by blast
next
  assume "parse_input sv stdinData = Inl err"
  then show "main sv stdinData fuel w =
        (Exit 1, w\<lparr>stdout := stdout w @ frame \<lparr>status = Error, result = None, newSessionId = None,
                           error = Some (''Failed to parse input: '' @ err)\<rparr>\<rparr>)"
    by (simp add: main_def writeOutput_frame)
qed

theorem main_frames_witness:
  \<open>parse_input stub_service ''hi'' = Inr (sample_input ''hi'') \<and>
   new_session_id stub_service (fresh_world 1) = ''betty-1730'' \<and>
   (\<exists>outs. stdout (snd (main stub_service ''hi'' 3 (fresh_world 1))) = concat (map frame outs) \<and>
      list_all (\<lambda>out. newSessionId out = Some ''betty-1730'') outs) \<and>
   main stub_service ''hi'' 3 (fresh_world 1) =
     (Running,
      \<lparr>history_file = Some ''{"role":"user","content":"hi","timestamp":"2026-11-03T10:00:00.000Z"}\<newline>{"role":"assistant","content":"hello","timestamp":"2026-11-03T10:00:00.000Z"}\<newline>'',
       appended = [historyEntry ''user'' ''hi'' ''2026-11-03T10:00:00.000Z'',
                   historyEntry ''assistant'' ''hello'' ''2026-11-03T10:00:00.000Z''],
       ipc_input = [],
       stdout = ''---NANOCLAW_OUTPUT_START---\<newline>{"status":"success","result":"hello","newSessionId":"betty-1730"}\<newline>---NANOCLAW_OUTPUT_END---\<newline>---NANOCLAW_OUTPUT_START---\<newline>{"status":"success","result":null,"newSessionId":"betty-1730"}\<newline>---NANOCLAW_OUTPUT_END---\<newline>'',
       requests = [\<lparr>req_baseURL = ''http://192.168.65.1:11434/v1'', req_model = ''qwen3.5'',
                     req_messages = [Param (JObj [(''role'', JStr ''system''), (''content'', JStr ''You are Betty.'')]),
                                     Param (JObj [(''role'', JStr ''user''), (''content'', JStr ''hi'')])]\<rparr>],
       ext = 2\<rparr>) \<and>
   parse_input stub_service ''not json'' = Inl ''Unexpected token o'' \<and>
   fst (main stub_service ''not json'' 3 (fresh_world 1)) = Exit 1\<close>
proof -
  have p: "parse_input stub_service ''hi'' = Inr (sample_input ''hi'')"
    by (simp add: stub_service_def)
  have q: "parse_input stub_service ''not json'' = Inl ''Unexpected token o''"
    by (simp add: stub_service_def)
  have s: "new_session_id stub_service (fresh_world 1) = ''betty-1730''" by code_simp
  have o: "stdout (fresh_world 1) = []" by (simp add: fresh_world_def)
  note t1 = main_frames [of stub_service "''hi''" "sample_input ''hi''" 3 "fresh_world 1"]
  note t2 = main_frames [of stub_service "''not json''" _ 3 "fresh_world 1" "''Unexpected token o''"]
  from t1 p obtain outs where
    A: "stdout (snd (main stub_service ''hi'' 3 (fresh_world 1))) = stdout (fresh_world 1) @ concat (map frame outs)"
    and B: "\<forall>out\<in>set outs. newSessionId out = Some (new_session_id stub_service (fresh_world 1))"
    by blast
  from A have A': "stdout (snd (main stub_service ''hi'' 3 (fresh_world 1))) = concat (map frame outs)"
    by (simp only: o append_Nil)
  from B have B': "list_all (\<lambda>out. newSessionId out = Some ''betty-1730'') outs"
    by (simp only: s list_all_iff)
  from A' B' have a: "\<exists>outs. stdout (snd (main stub_service ''hi'' 3 (fresh_world 1))) = concat (map frame outs) \<and>
      list_all (\<lambda>out. newSessionId out = Some ''betty-1730'') outs"
    by blast
  have b: \<open>main stub_service ''hi'' 3 (fresh_world 1) =
     (Running,
      \<lparr>history_file = Some ''{"role":"user","content":"hi","timestamp":"2026-11-03T10:00:00.000Z"}\<newline>{"role":"assistant","content":"hello","timestamp":"2026-11-03T10:00:00.000Z"}\<newline>'',
       appended = [historyEntry ''user'' ''hi'' ''2026-11-03T10:00:00.000Z'',
                   historyEntry ''assistant'' ''hello'' ''2026-11-03T10:00:00.000Z''],
       ipc_input = [],
       stdout = ''---NANOCLAW_OUTPUT_START---\<newline>{"status":"success","result":"hello","newSessionId":"betty-1730"}\<newline>---NANOCLAW_OUTPUT_END---\<newline>---NANOCLAW_OUTPUT_START---\<newline>{"status":"success","result":null,"newSessionId":"betty-1730"}\<newline>---NANOCLAW_OUTPUT_END---\<newline>'',
       requests = [\<lparr>req_baseURL = ''http://192.168.65.1:11434/v1'', req_model = ''qwen3.5'',
                     req_messages = [Param (JObj [(''role'', JStr ''system''), (''content'', JStr ''You are Betty.'')]),
                                     Param (JObj [(''role'', JStr ''user''), (''content'', JStr ''hi'')])]\<rparr>],
       ext = 2\<rparr>)\<close>
    by code_simp
  from t2 q have c: "fst (main stub_service ''not json'' 3 (fresh_world 1)) = Exit 1" by simp
  from p s a b q c show ?thesis by (intro conjI)
qed

text \<open>
  Claim C3, as stated, fails at the startup failure: the frame written for an input that
  does not parse has no \<^verbatim>\<open>newSessionId\<close> at all.
\<close>

theorem main_startup_failure_frame:
  \<open>parse_input stub_service ''not json'' = Inl ''Unexpected token o'' \<and>
   main stub_service ''not json'' 3 (fresh_world 1) =
     (Exit 1,
      (fresh_world 1)\<lparr>stdout := ''---NANOCLAW_OUTPUT_START---\<newline>{"status":"error","result":null,"error":"Failed to parse input: Unexpected token o"}\<newline>---NANOCLAW_OUTPUT_END---\<newline>''\<rparr>) \<and>
   \<not> sublist ''newSessionId'' (stdout (snd (main stub_service ''not json'' 3 (fresh_world 1))))\<close>
  by code_simp

end
